theory Spec2Isabelle
  imports Complex_Main "HOL-Library.Multiset"
begin

section \<open>JavaScript values used by the services\<close>

text \<open>
  Strings are lists of code units; a \<^typ>\<open>char\<close> stands for a code unit below 256.
  A JavaScript number is \<open>NaN\<close>, an infinity, or a finite value; a finite double is a
  rational number, and the model keeps it as a \<^typ>\<open>rat\<close>. The sign of zero is not
  represented: no operation of the services observes it (\<open>Math.round\<close>, the template
  literal and \<open>JSON.stringify\<close> all print \<open>-0\<close> as \<open>0\<close>).
\<close>

datatype number = NaN | PosInf | NegInf | Finite rat

text \<open>
  Built-ins of the JavaScript engine that the repository calls but does not define are
  parameters of the model:
  \<^item> \<open>dateTime s\<close> is \<open>new Date(s).getTime()\<close>, with \<open>None\<close> for \<open>NaN\<close> (an invalid date);
  \<^item> \<open>toDouble q\<close> is the Number value of the non-negative decimal \<open>q\<close> that
    \<open>parseFloat\<close> has read (the nearest double, or an infinity when it is too large);
  \<^item> \<open>showDouble q\<close> is \<open>Number::toString\<close> for a finite double that is not an integer
    below \<open>10^21\<close> in magnitude;
  \<^item> \<open>randomId k\<close> is the result of the \<open>k\<close>-th evaluation (counted from 0) of
    \<open>Math.random().toString(36).substr(2, 9)\<close>;
  \<^item> \<open>toISODate t\<close> is \<open>new Date(t).toISOString().split('T')[0]\<close>, the UTC calendar
    date of the instant \<open>t\<close> (milliseconds since the epoch);
  \<^item> \<open>addLocalDay t\<close> is the instant that \<open>d.setDate(d.getDate() + 1)\<close> moves \<open>t\<close> to:
    the same local time on the next local calendar day.
\<close>

record runtime =
  dateTime :: "string \<Rightarrow> int option"
  toDouble :: "rat \<Rightarrow> number"
  showDouble :: "rat \<Rightarrow> string"
  randomId :: "nat \<Rightarrow> string"
  toISODate :: "int \<Rightarrow> string"
  addLocalDay :: "int \<Rightarrow> int"

subsection \<open>String primitives\<close>

definition isWhite :: "char \<Rightarrow> bool" where
  \<comment> \<open>WhiteSpace and LineTerminator code units below 256: TAB, LF, VT, FF, CR, SP, NBSP\<close>
  "isWhite c \<longleftrightarrow> c \<in> set [CHR 0x09, CHR 0x0A, CHR 0x0B, CHR 0x0C, CHR 0x0D, CHR 0x20, CHR 0xA0]"

definition trim :: "string \<Rightarrow> string" where
  \<comment> \<open>\<open>String.prototype.trim\<close>\<close>
  "trim s = rev (dropWhile isWhite (rev (dropWhile isWhite s)))"

definition isDigit :: "char \<Rightarrow> bool" where
  \<comment> \<open>the regular expression class \<open>\d\<close>\<close>
  "isDigit c \<longleftrightarrow> c \<in> set ''0123456789''"

definition digitVal :: "char \<Rightarrow> nat" where
  "digitVal c = of_char c - 48"

definition digitsVal :: "string \<Rightarrow> nat" where
  \<comment> \<open>the value of a string of decimal digits, most significant first\<close>
  "digitsVal ds = foldl (\<lambda>n c. 10 * n + digitVal c) 0 ds"

fun splitOn :: "char \<Rightarrow> string \<Rightarrow> string list" where
  \<comment> \<open>\<open>s.split(d)\<close> for a separator of one code unit\<close>
  "splitOn d [] = [[]]"
| "splitOn d (c # cs) =
     (if c = d then [] # splitOn d cs
      else (case splitOn d cs of [] \<Rightarrow> [[c]] | p # ps \<Rightarrow> (c # p) # ps))"

fun splitLines :: "string \<Rightarrow> string list" where
  \<comment> \<open>\<open>s.split(/\r\n|\n/)\<close>\<close>
  "splitLines [] = [[]]"
| "splitLines (c # cs) =
     (if c = CHR 0x0A then [] # splitLines cs
      else if c = CHR 0x0D \<and> cs \<noteq> [] \<and> hd cs = CHR 0x0A then [] # splitLines (tl cs)
      else (case splitLines cs of [] \<Rightarrow> [[c]] | p # ps \<Rightarrow> (c # p) # ps))"

fun isPrefixOf :: "string \<Rightarrow> string \<Rightarrow> bool" where
  "isPrefixOf [] s = True"
| "isPrefixOf (p # ps) [] = False"
| "isPrefixOf (p # ps) (c # cs) = (p = c \<and> isPrefixOf ps cs)"

fun includesStr :: "string \<Rightarrow> string \<Rightarrow> bool" where
  \<comment> \<open>\<open>s.includes(p)\<close>\<close>
  "includesStr [] p = isPrefixOf p []"
| "includesStr (c # cs) p = (isPrefixOf p (c # cs) \<or> includesStr cs p)"

definition padStart2 :: "string \<Rightarrow> string" where
  \<comment> \<open>\<open>s.padStart(2, '0')\<close>\<close>
  "padStart2 s = replicate (2 - length s) (CHR ''0'') @ s"

fun joinWith :: "string \<Rightarrow> string list \<Rightarrow> string" where
  \<comment> \<open>\<open>xs.join(sep)\<close>\<close>
  "joinWith sep [] = []"
| "joinWith sep [x] = x"
| "joinWith sep (x # y # ys) = x @ sep @ joinWith sep (y # ys)"

section \<open>Date Normalizer (\<open>parseDate\<close> in storageService.ts)\<close>

definition isSep :: "char \<Rightarrow> bool" where
  \<comment> \<open>the class \<open>[-\/]\<close>\<close>
  "isSep c \<longleftrightarrow> c = CHR ''-'' \<or> c = CHR ''/''"

definition isoMatch :: "string \<Rightarrow> (string \<times> string \<times> string) option" where
  \<comment> \<open>\<open>/^(\d{4})[-\/](\d{1,2})[-\/](\d{1,2})$/\<close>, the three groups\<close>
  "isoMatch s =
     (let y = take 4 s in
      if length y = 4 \<and> list_all isDigit y then
        (case drop 4 s of
           [] \<Rightarrow> None
         | c1 # r \<Rightarrow>
             (let m = takeWhile isDigit r in
              if isSep c1 \<and> 1 \<le> length m \<and> length m \<le> 2 then
                (case dropWhile isDigit r of
                   [] \<Rightarrow> None
                 | c2 # d \<Rightarrow>
                     if isSep c2 \<and> 1 \<le> length d \<and> length d \<le> 2 \<and> list_all isDigit d
                     then Some (y, m, d) else None)
              else None))
      else None)"

definition slashMatch :: "string \<Rightarrow> (string \<times> string \<times> string) option" where
  \<comment> \<open>\<open>/^(\d{1,2})[\/\-](\d{1,2})[\/\-](\d{2,4})$/\<close>, the three groups\<close>
  "slashMatch s =
     (let d = takeWhile isDigit s in
      if 1 \<le> length d \<and> length d \<le> 2 then
        (case dropWhile isDigit s of
           [] \<Rightarrow> None
         | c1 # r \<Rightarrow>
             (let m = takeWhile isDigit r in
              if isSep c1 \<and> 1 \<le> length m \<and> length m \<le> 2 then
                (case dropWhile isDigit r of
                   [] \<Rightarrow> None
                 | c2 # y \<Rightarrow>
                     if isSep c2 \<and> 2 \<le> length y \<and> length y \<le> 4 \<and> list_all isDigit y
                     then Some (d, m, y) else None)
              else None))
      else None)"

definition compactMatch :: "string \<Rightarrow> (string \<times> string \<times> string) option" where
  \<comment> \<open>\<open>/^(\d{2})(\d{2})(\d{4})$/\<close>, the three groups\<close>
  "compactMatch s =
     (if length s = 8 \<and> list_all isDigit s
      then Some (take 2 s, take 2 (drop 2 s), drop 4 s) else None)"

definition datePartOf :: "string \<Rightarrow> string" where
  \<comment> \<open>\<open>rawDate.split(' ')[0]\<close>: the text before the first space\<close>
  "datePartOf s = takeWhile (\<lambda>c. c \<noteq> CHR '' '') s"

definition parseDate :: "runtime \<Rightarrow> string \<Rightarrow> string option" where
  "parseDate rt rawDate =
     (if rawDate = [] then None
      else
        let datePart = datePartOf (trim rawDate) in
        case isoMatch datePart of
          Some (year, m, d) \<Rightarrow>
            (let isoString = year @ ''-'' @ padStart2 m @ ''-'' @ padStart2 d in
             if dateTime rt isoString \<noteq> None then Some isoString else None)
        | None \<Rightarrow>
            (case slashMatch datePart of
               Some (d, m, y) \<Rightarrow>
                 (let year = (if length y = 2 then ''20'' @ y else y) in
                  Some (year @ ''-'' @ padStart2 m @ ''-'' @ padStart2 d))
             | None \<Rightarrow>
                 (case compactMatch datePart of
                    Some (day, month, year) \<Rightarrow> Some (year @ ''-'' @ month @ ''-'' @ day)
                  | None \<Rightarrow> None)))"

definition threeDigitYear :: "string \<Rightarrow> bool" where
  \<comment> \<open>the text matches the second pattern with a year group of three digits\<close>
  "threeDigitYear s =
     (case slashMatch (datePartOf (trim s)) of Some (d, m, y) \<Rightarrow> length y = 3 | None \<Rightarrow> False)"

definition isoForm :: "string \<Rightarrow> bool" where
  \<comment> \<open>the text matches the first pattern (year first)\<close>
  "isoForm s \<longleftrightarrow> isoMatch (datePartOf (trim s)) \<noteq> None"

section \<open>Numbers: \<open>parseFloat\<close>, \<open>Math.round\<close>, \<open>Number::toString\<close>\<close>

definition negate :: "number \<Rightarrow> number" where
  "negate v = (case v of NaN \<Rightarrow> NaN | PosInf \<Rightarrow> NegInf | NegInf \<Rightarrow> PosInf | Finite q \<Rightarrow> Finite (- q))"

definition exponentOf :: "string \<Rightarrow> int" where
  \<comment> \<open>the value of an ExponentPart at the head of the text, 0 when there is none\<close>
  "exponentOf r =
     (case r of
        [] \<Rightarrow> 0
      | e # r1 \<Rightarrow>
          if e = CHR ''e'' \<or> e = CHR ''E'' then
            (let neg = (r1 \<noteq> [] \<and> hd r1 = CHR ''-'');
                 r2 = (if r1 \<noteq> [] \<and> (hd r1 = CHR ''-'' \<or> hd r1 = CHR ''+'') then tl r1 else r1);
                 ds = takeWhile isDigit r2
             in if ds = [] then 0
                else if neg then - int (digitsVal ds) else int (digitsVal ds))
          else 0)"

definition parseFloat :: "runtime \<Rightarrow> string \<Rightarrow> number" where
  \<comment> \<open>the longest prefix that is a StrDecimalLiteral, after leading white space\<close>
  "parseFloat rt s =
     (let t = dropWhile isWhite s;
          neg = (t \<noteq> [] \<and> hd t = CHR ''-'');
          u = (if t \<noteq> [] \<and> (hd t = CHR ''-'' \<or> hd t = CHR ''+'') then tl t else t)
      in if isPrefixOf ''Infinity'' u then (if neg then NegInf else PosInf)
         else
           let ip = takeWhile isDigit u;
               r1 = dropWhile isDigit u;
               hasDot = (r1 \<noteq> [] \<and> hd r1 = CHR ''.'');
               fp = (if hasDot then takeWhile isDigit (tl r1) else []);
               r2 = (if hasDot then dropWhile isDigit (tl r1) else r1)
           in if ip = [] \<and> fp = [] then NaN
              else
                let mv = of_nat (digitsVal (ip @ fp)) * 10 powi (exponentOf r2 - int (length fp));
                    v = toDouble rt mv
                in if neg then negate v else v)"

definition isNaN :: "number \<Rightarrow> bool" where
  "isNaN v \<longleftrightarrow> v = NaN"

definition mathRound :: "number \<Rightarrow> number" where
  \<comment> \<open>\<open>Math.round\<close>: the nearest integer, a tie going up\<close>
  "mathRound v = (case v of Finite q \<Rightarrow> Finite (of_int \<lfloor>q + 1 / 2\<rfloor>) | _ \<Rightarrow> v)"

definition digitChar :: "nat \<Rightarrow> char" where
  \<comment> \<open>the decimal digit for a value below ten\<close>
  "digitChar k = ''0123456789'' ! k"

fun natToString :: "nat \<Rightarrow> string" where
  "natToString n = (if n < 10 then [digitChar n] else natToString (n div 10) @ [digitChar (n mod 10)])"

declare natToString.simps [simp del]

definition intToString :: "int \<Rightarrow> string" where
  "intToString i = (if i < 0 then CHR ''-'' # natToString (nat (- i)) else natToString (nat i))"

definition numberToString :: "runtime \<Rightarrow> number \<Rightarrow> string" where
  \<comment> \<open>what a template literal prints for a number\<close>
  "numberToString rt v =
     (case v of
        NaN \<Rightarrow> ''NaN''
      | PosInf \<Rightarrow> ''Infinity''
      | NegInf \<Rightarrow> ''-Infinity''
      | Finite q \<Rightarrow>
          if of_int \<lfloor>q\<rfloor> = q \<and> \<bar>q\<bar> < 10 ^ 21 then intToString \<lfloor>q\<rfloor> else showDouble rt q)"

section \<open>Observations and the persisted slot (types.ts, storageService.ts)\<close>

record Observation =
  idStr :: string
  date :: string
  bats :: number
  figs :: number
  leaves :: number
  rain :: "number option"
  tempMax :: "number option"

text \<open>
  The slot \<open>fig_bat_data_v1\<close> of \<open>localStorage\<close>: absent, holding text that
  \<open>getObservations\<close> cannot read as an array, or holding the serialised array.
  \<open>Saved xs\<close> stands for the text that \<open>JSON.stringify\<close> writes for \<open>xs\<close>, and reading
  it gives \<open>xs\<close> back. This is what \<open>JSON.parse\<close> does for strings and finite numbers.
  \<open>JSON.stringify\<close> writes \<open>NaN\<close> and the infinities as \<open>null\<close>, and the model does not
  represent that: it is exact for records whose \<open>bats\<close>, \<open>figs\<close> and \<open>leaves\<close> are finite.
  (An import can store an infinity, from a cell with the text \<open>Infinity\<close>; the identifier
  and the date of a record are strings and are not affected.)
\<close>

datatype slot = Missing | Unreadable | Saved "Observation list"

subsection \<open>\<open>Array.prototype.sort\<close> with a comparator\<close>

text \<open>
  The sort is stable, and a comparator result \<open>NaN\<close> (here \<open>None\<close>) is read as 0. For a
  comparator that orders the elements consistently this fixes the result, and the model
  computes it by stable insertion: an element moves behind another only when the
  comparator is positive. When some comparisons are \<open>NaN\<close> and the comparator is no longer
  a consistent order, ECMAScript leaves the order to the engine, and an engine may
  return another order than the insertion of the model (V8 does, on some inputs). The
  model is exact when the engine reads every date, and the general statements about
  order below assume that. The one closed instance with an unreadable date is an input
  on which every comparison with that date is 0 and the neighbours are in order, so the
  run detection of V8 leaves the list as the insertion of the model does.
\<close>

definition positive :: "int option \<Rightarrow> bool" where
  "positive r = (case r of None \<Rightarrow> False | Some v \<Rightarrow> 0 < v)"

fun insertJS :: "('a \<Rightarrow> 'a \<Rightarrow> int option) \<Rightarrow> 'a \<Rightarrow> 'a list \<Rightarrow> 'a list" where
  "insertJS cmp x [] = [x]"
| "insertJS cmp x (y # ys) = (if positive (cmp x y) then y # insertJS cmp x ys else x # y # ys)"

definition sortJS :: "('a \<Rightarrow> 'a \<Rightarrow> int option) \<Rightarrow> 'a list \<Rightarrow> 'a list" where
  "sortJS cmp xs = foldr (insertJS cmp) xs []"

definition newestFirst :: "runtime \<Rightarrow> Observation \<Rightarrow> Observation \<Rightarrow> int option" where
  \<comment> \<open>\<open>(a, b) => new Date(b.date).getTime() - new Date(a.date).getTime()\<close>\<close>
  "newestFirst rt a b =
     (case (dateTime rt (date b), dateTime rt (date a)) of
        (Some tb, Some ta) \<Rightarrow> Some (tb - ta)
      | _ \<Rightarrow> None)"

subsection \<open>The store operations\<close>

definition getObservations :: "runtime \<Rightarrow> slot \<Rightarrow> Observation list" where
  "getObservations rt st = (case st of Saved xs \<Rightarrow> sortJS (newestFirst rt) xs | _ \<Rightarrow> [])"

fun findIndex :: "('a \<Rightarrow> bool) \<Rightarrow> 'a list \<Rightarrow> nat option" where
  \<comment> \<open>\<open>None\<close> is the result -1\<close>
  "findIndex P [] = None"
| "findIndex P (x # xs) = (if P x then Some 0 else map_option Suc (findIndex P xs))"

definition saveObservation :: "runtime \<Rightarrow> Observation \<Rightarrow> slot \<Rightarrow> Observation list \<times> slot" where
  "saveObservation rt obs st =
     (let current = getObservations rt st;
          updated =
            (case findIndex (\<lambda>x. date x = date obs) current of
               Some existingIndex \<Rightarrow>
                 current[existingIndex := obs\<lparr>idStr := idStr (current ! existingIndex)\<rparr>]
             | None \<Rightarrow> obs # current);
          sorted = sortJS (newestFirst rt) updated
      in (sorted, Saved sorted))"

definition deleteObservation :: "runtime \<Rightarrow> string \<Rightarrow> slot \<Rightarrow> Observation list \<times> slot" where
  "deleteObservation rt i st =
     (let current = getObservations rt st;
          updated = filter (\<lambda>x. idStr x \<noteq> i) current
      in (updated, Saved updated))"

definition exportRow :: "runtime \<Rightarrow> Observation \<Rightarrow> string" where
  \<comment> \<open>\<open>`${d.date},${d.figs},${d.bats},${d.leaves}`\<close>\<close>
  "exportRow rt d = date d @ '','' @ numberToString rt (figs d) @ '','' @
                    numberToString rt (bats d) @ '','' @ numberToString rt (leaves d)"

definition exportToCSV :: "runtime \<Rightarrow> Observation list \<Rightarrow> string" where
  "exportToCSV rt data =
     (let header = ''Date,Figs,Bats,Leaves'';
          rows = map (exportRow rt) data
      in joinWith [CHR 0x0A] (header # rows))"

section \<open>Tabular Record Parser (\<open>importFromCSV\<close> in storageService.ts)\<close>

definition parseValue :: "runtime \<Rightarrow> string \<Rightarrow> number" where
  "parseValue rt val = (if val = [] then Finite 0 else parseFloat rt val)"

definition parseRow :: "runtime \<Rightarrow> char \<Rightarrow> nat \<Rightarrow> string \<Rightarrow> Observation option" where
  \<comment> \<open>one turn of the loop, for the \<open>k\<close>-th identifier; \<open>None\<close> when nothing is pushed\<close>
  "parseRow rt delimiter k raw =
     (let line = trim raw in
      if line = [] then None
      else
        let parts = map trim (splitOn delimiter line) in
        if 3 \<le> length parts then
          (let formattedDate = parseDate rt (parts ! 0);
               figsVal = parseValue rt (parts ! 1);
               batsVal = parseValue rt (parts ! 2);
               leavesVal = (if 4 \<le> length parts then parseValue rt (parts ! 3) else Finite 0)
           in case formattedDate of
                None \<Rightarrow> None
              | Some fd \<Rightarrow>
                  if \<not> isNaN figsVal \<and> \<not> isNaN batsVal then
                    Some \<lparr>idStr = randomId rt k, date = fd,
                          bats = mathRound batsVal, figs = mathRound figsVal,
                          leaves = (if isNaN leavesVal then Finite 0 else mathRound leavesVal),
                          rain = None, tempMax = None\<rparr>
                  else None)
        else None)"

fun importLoop :: "runtime \<Rightarrow> char \<Rightarrow> string list \<Rightarrow> Observation list \<Rightarrow> Observation list" where
  "importLoop rt delimiter [] observations = observations"
| "importLoop rt delimiter (l # ls) observations =
     importLoop rt delimiter ls
       (case parseRow rt delimiter (length observations) l of
          None \<Rightarrow> observations
        | Some ob \<Rightarrow> observations @ [ob])"

definition detectDelimiter :: "string list \<Rightarrow> char" where
  "detectDelimiter lines =
     (let firstLine = (case List.find (\<lambda>l. trim l \<noteq> []) lines of Some l \<Rightarrow> l | None \<Rightarrow> [])
      in if CHR 0x09 \<in> set firstLine then CHR 0x09 else CHR '','')"

definition importFromCSV :: "runtime \<Rightarrow> string \<Rightarrow> slot \<Rightarrow> Observation list \<times> slot" where
  "importFromCSV rt input st =
     (if trim input = [] then ([], st)
      else
        let lines = splitLines (trim input);
            delimiter = detectDelimiter lines;
            observations = importLoop rt delimiter lines []
        in if observations \<noteq> [] then
             (let sorted = sortJS (newestFirst rt) observations in (sorted, Saved sorted))
           else (observations, st))"

section \<open>Remote calls\<close>

text \<open>
  \<open>fetch\<close> is a parameter: for a URL, the promise it returns is rejected with a message
  (a transport error) or resolved with a response. Of a response the services read the
  content type header, \<open>ok\<close>, \<open>status\<close>, the text, and the value of \<open>json()\<close> (\<open>None\<close> when
  the body is not JSON and \<open>json()\<close> rejects).
\<close>

datatype error = Error string

datatype meteoJson =
    JsonNull
  | JsonNoDaily
  | JsonDaily "string list option" "number option list option" "number option list option"

record response =
  contentType :: "string option"
  ok :: bool
  status :: nat
  bodyText :: string
  json :: "meteoJson option"

datatype fetched = Rejected string | Resolved response

section \<open>Sheet Import Adapter (\<open>fetchGoogleSheet\<close> in storageService.ts)\<close>

definition isIdChar :: "char \<Rightarrow> bool" where
  \<comment> \<open>the class \<open>[a-zA-Z0-9-_]\<close>\<close>
  "isIdChar c \<longleftrightarrow>
     (let n = (of_char c :: nat) in
      (97 \<le> n \<and> n \<le> 122) \<or> (65 \<le> n \<and> n \<le> 90) \<or> (48 \<le> n \<and> n \<le> 57) \<or>
      c = CHR ''-'' \<or> c = CHR ''_'')"

fun findDocId :: "string \<Rightarrow> string option" where
  \<comment> \<open>group 1 of the leftmost match of \<open>/\/d\/([a-zA-Z0-9-_]+)/\<close>\<close>
  "findDocId [] = None"
| "findDocId (c # cs) =
     (if isPrefixOf ''/d/'' (c # cs) \<and> takeWhile isIdChar (drop 3 (c # cs)) \<noteq> []
      then Some (takeWhile isIdChar (drop 3 (c # cs)))
      else findDocId cs)"

fun findGid :: "string \<Rightarrow> string option" where
  \<comment> \<open>group 1 of the leftmost match of \<open>/[#&?]gid=(\d+)/\<close>\<close>
  "findGid [] = None"
| "findGid (c # cs) =
     (if (c = CHR ''#'' \<or> c = CHR ''&'' \<or> c = CHR ''?'') \<and> isPrefixOf ''gid='' cs \<and>
         takeWhile isDigit (drop 4 cs) \<noteq> []
      then Some (takeWhile isDigit (drop 4 cs))
      else findGid cs)"

definition invalidUrlError :: error where
  "invalidUrlError = Error ''Invalid Google Sheet URL. Could not find Spreadsheet ID.''"

definition exportUrl :: "string \<Rightarrow> string option" where
  \<comment> \<open>the URL to fetch; \<open>None\<close> when the function throws before the \<open>try\<close> block\<close>
  "exportUrl url =
     (if includesStr url ''output=csv'' then Some url
      else
        (case findDocId url of
           None \<Rightarrow> None
         | Some i \<Rightarrow>
             (let gid = (case findGid url of Some g \<Rightarrow> g | None \<Rightarrow> ''0'')
              in Some (''https://docs.google.com/spreadsheets/d/'' @ i @
                       ''/export?format=csv&gid='' @ gid))))"

definition fetchGoogleSheet ::
  "runtime \<Rightarrow> (string \<Rightarrow> fetched) \<Rightarrow> string \<Rightarrow> slot \<Rightarrow> string list \<times> (error + Observation list) \<times> slot" where
  \<comment> \<open>the URLs requested, the outcome of the promise, and the slot afterwards\<close>
  "fetchGoogleSheet rt fetch url st =
     (case exportUrl url of
        None \<Rightarrow> ([], Inl invalidUrlError, st)
      | Some fetchUrl \<Rightarrow>
          (case fetch fetchUrl of
             Rejected msg \<Rightarrow>
               ([fetchUrl], Inl (Error (if msg = [] then ''Failed to fetch data.'' else msg)), st)
           | Resolved r \<Rightarrow>
               if (case contentType r of Some ct \<Rightarrow> includesStr ct ''text/html'' | None \<Rightarrow> False) then
                 ([fetchUrl],
                  Inl (Error ''Access denied. The sheet must be 'Published to the web' or have 'Anyone with the link' access.''),
                  st)
               else if \<not> ok r then
                 ([fetchUrl],
                  Inl (Error (''Google Sheets returned status '' @ natToString (status r) @ ''.'')), st)
               else
                 (case importFromCSV rt (bodyText r) st of
                    (obs, st') \<Rightarrow>
                      if obs = [] then
                        ([fetchUrl],
                         Inl (Error ''No valid data rows found. Ensure columns are A=Date, B=Figs, C=Bats.''),
                         st')
                      else ([fetchUrl], Inr obs, st'))))"

section \<open>Weather Range Fetcher (weatherService.ts)\<close>

record WeatherData =
  date_w :: string
  rain_w :: number
  tempMax_w :: number

definition orZero :: "number option \<Rightarrow> number" where
  \<comment> \<open>\<open>x || 0\<close> for a number, \<open>null\<close> or \<open>undefined\<close> (\<open>None\<close>)\<close>
  "orZero x = (case x of None \<Rightarrow> Finite 0 | Some NaN \<Rightarrow> Finite 0 | Some v \<Rightarrow> v)"

definition elemAt :: "'a option list \<Rightarrow> nat \<Rightarrow> 'a option" where
  \<comment> \<open>\<open>xs[i]\<close>, \<open>undefined\<close> beyond the end\<close>
  "elemAt xs i = (if i < length xs then xs ! i else None)"

definition parseMeteoResponse :: "meteoJson \<Rightarrow> WeatherData list option" where
  \<comment> \<open>\<open>None\<close> when a TypeError is thrown\<close>
  "parseMeteoResponse j =
     (case j of
        JsonNull \<Rightarrow> None
      | JsonNoDaily \<Rightarrow> Some []
      | JsonDaily None tm pr \<Rightarrow> Some []
      | JsonDaily (Some ts) tm pr \<Rightarrow>
          if ts = [] then Some []
          else
            (case (tm, pr) of
               (Some tms, Some prs) \<Rightarrow>
                 Some (map (\<lambda>(d, i). \<lparr>date_w = d, rain_w = orZero (elemAt prs i),
                                        tempMax_w = orZero (elemAt tms i)\<rparr>)
                           (zip ts [0 ..< length ts]))
             | _ \<Rightarrow> None))"

definition queryParams :: "string \<Rightarrow> string \<Rightarrow> string" where
  "queryParams s e =
     ''?latitude=-26.66&longitude=152.96&start_date='' @ s @ ''&end_date='' @ e @
     ''&daily=temperature_2m_max,precipitation_sum&timezone=Australia%2FBrisbane''"

definition forecastUrl :: "string \<Rightarrow> string \<Rightarrow> string" where
  "forecastUrl s e = ''https://api.open-meteo.com/v1/forecast'' @ queryParams s e"

definition archiveUrl :: "string \<Rightarrow> string \<Rightarrow> string" where
  "archiveUrl s e = ''https://archive-api.open-meteo.com/v1/archive'' @ queryParams s e"

definition readLeg :: "response \<Rightarrow> WeatherData list option" where
  \<comment> \<open>\<open>parseMeteoResponse(await res.json())\<close>; \<open>None\<close> when either throws\<close>
  "readLeg res = (case json res of None \<Rightarrow> None | Some j \<Rightarrow> parseMeteoResponse j)"

definition legResults :: "response \<Rightarrow> WeatherData list option" where
  \<comment> \<open>what one response contributes: nothing when \<open>ok\<close> is false, else the parsed body;
      \<open>None\<close> when reading the body throws\<close>
  "legResults res = (if \<not> ok res then Some [] else readLeg res)"

definition singleLeg :: "(string \<Rightarrow> fetched) \<Rightarrow> string \<Rightarrow> WeatherData list option" where
  \<comment> \<open>cases 1 and 2: one request; \<open>None\<close> when the \<open>try\<close> block throws\<close>
  "singleLeg fetch url =
     (case fetch url of
        Rejected msg \<Rightarrow> None
      | Resolved res \<Rightarrow> legResults res)"

definition dayMs :: int where
  "dayMs = 24 * 60 * 60 * 1000"

definition tryFetchWeather ::
  "runtime \<Rightarrow> (string \<Rightarrow> fetched) \<Rightarrow> int \<Rightarrow> string \<Rightarrow> string \<Rightarrow> string list \<times> WeatherData list option" where
  \<comment> \<open>the \<open>try\<close> block: the URLs requested in the order of the calls, and the value
      returned, \<open>None\<close> when the block throws; \<open>now\<close> is \<open>new Date().valueOf()\<close>\<close>
  "tryFetchWeather rt fetch now startDate endDate =
     (let startTime = dateTime rt startDate;
          endTime = dateTime rt endDate;
          cutoffDate = now - 7 * dayMs;
          cutoffStr = toISODate rt cutoffDate
      in if (case startTime of Some s \<Rightarrow> cutoffDate < s | None \<Rightarrow> False) then
           ([forecastUrl startDate endDate], singleLeg fetch (forecastUrl startDate endDate))
         else if (case endTime of Some e \<Rightarrow> e \<le> cutoffDate | None \<Rightarrow> False) then
           ([archiveUrl startDate endDate], singleLeg fetch (archiveUrl startDate endDate))
         else
           let aUrl = archiveUrl startDate cutoffStr;
               nextDayStr = toISODate rt (addLocalDay rt cutoffDate);
               fUrl = forecastUrl nextDayStr endDate;
               withForecast =
                 (case (dateTime rt nextDayStr, endTime) of (Some n, Some e) \<Rightarrow> n \<le> e | _ \<Rightarrow> False);
               requests = (if withForecast then [fUrl] else []) @ [aUrl]
           in case (fetch aUrl, if withForecast then Some (fetch fUrl) else None) of
                (Rejected msg, _) \<Rightarrow> (requests, None)
              | (Resolved archiveRes, Some (Rejected msg)) \<Rightarrow> (requests, None)
              | (Resolved archiveRes, forecastRes) \<Rightarrow>
                  (requests,
                   case legResults archiveRes of
                     None \<Rightarrow> None
                   | Some results \<Rightarrow>
                       (case forecastRes of
                          Some (Resolved fRes) \<Rightarrow>
                            map_option (\<lambda>ys. results @ ys) (legResults fRes)
                        | _ \<Rightarrow> Some results)))"

definition fetchWeatherHistory ::
  "runtime \<Rightarrow> (string \<Rightarrow> fetched) \<Rightarrow> int \<Rightarrow> string \<Rightarrow> string \<Rightarrow> string list \<times> (error + WeatherData list)" where
  \<comment> \<open>the whole function: the \<open>catch\<close> clause turns every throw into the empty array\<close>
  "fetchWeatherHistory rt fetch now startDate endDate =
     (case tryFetchWeather rt fetch now startDate endDate of
        (requests, None) \<Rightarrow> (requests, Inr [])
      | (requests, Some results) \<Rightarrow> (requests, Inr results))"

section \<open>A reference engine for concrete runs\<close>

text \<open>
  For evaluating the services at concrete inputs: an engine that reads date-only ISO
  strings \<open>YYYY-MM-DD\<close> naming a day of the proleptic Gregorian calendar (and nothing else)
  as UTC midnight, prints UTC dates of the years 0 to 9999, keeps a decimal exact (which
  is what the nearest double is for the short decimals of the examples), prints nothing
  for a number that is not an integer (the examples print integers only), lives in a
  zone without daylight saving (a local day is 24 hours), and hands out the identifiers
  \<open>id0\<close>, \<open>id1\<close>, ... The theorems below hold for every engine; this one only supplies
  closed instances.
\<close>

definition daysFromCivil :: "int \<Rightarrow> int \<Rightarrow> int \<Rightarrow> int" where
  \<comment> \<open>days since 1970-01-01 of the civil date \<open>y-m-d\<close>\<close>
  "daysFromCivil y0 m d =
     (let y = (if m \<le> 2 then y0 - 1 else y0);
          era = y div 400;
          yoe = y - era * 400;
          doy = (153 * (if 2 < m then m - 3 else m + 9) + 2) div 5 + d - 1;
          doe = yoe * 365 + yoe div 4 - yoe div 100 + doy
      in era * 146097 + doe - 719468)"

definition civilFromDays :: "int \<Rightarrow> int \<times> int \<times> int" where
  "civilFromDays z0 =
     (let z = z0 + 719468;
          era = z div 146097;
          doe = z - era * 146097;
          yoe = (doe - doe div 1460 + doe div 36524 - doe div 146096) div 365;
          y = yoe + era * 400;
          doy = doe - (365 * yoe + yoe div 4 - yoe div 100);
          mp = (5 * doy + 2) div 153;
          d = doy - (153 * mp + 2) div 5 + 1;
          m = (if mp < 10 then mp + 3 else mp - 9)
      in (if m \<le> 2 then y + 1 else y, m, d))"

definition daysInMonth :: "int \<Rightarrow> int \<Rightarrow> int" where
  "daysInMonth y m =
     (if m = 2 then (if y mod 4 = 0 \<and> (y mod 100 \<noteq> 0 \<or> y mod 400 = 0) then 29 else 28)
      else if m = 4 \<or> m = 6 \<or> m = 9 \<or> m = 11 then 30 else 31)"

definition isYMD :: "string \<Rightarrow> bool" where
  \<comment> \<open>the shape \<open>YYYY-MM-DD\<close>: four digits, two digits, two digits, joined by hyphens\<close>
  "isYMD s \<longleftrightarrow>
     length s = 10 \<and> list_all isDigit (take 4 s) \<and> s ! 4 = CHR ''-'' \<and>
     list_all isDigit (take 2 (drop 5 s)) \<and> s ! 7 = CHR ''-'' \<and> list_all isDigit (drop 8 s)"

definition refDateTime :: "string \<Rightarrow> int option" where
  "refDateTime s =
     (if isYMD s then
        (let y = int (digitsVal (take 4 s));
             m = int (digitsVal (take 2 (drop 5 s)));
             d = int (digitsVal (drop 8 s))
         in if 1 \<le> m \<and> m \<le> 12 \<and> 1 \<le> d \<and> d \<le> daysInMonth y m
            then Some (dayMs * daysFromCivil y m d) else None)
      else None)"

definition padNat :: "nat \<Rightarrow> nat \<Rightarrow> string" where
  "padNat w n = replicate (w - length (natToString n)) (CHR ''0'') @ natToString n"

definition refISODate :: "int \<Rightarrow> string" where
  "refISODate t =
     (case civilFromDays (t div dayMs) of
        (y, m, d) \<Rightarrow> padNat 4 (nat y) @ ''-'' @ padNat 2 (nat m) @ ''-'' @ padNat 2 (nat d))"

definition refRuntime :: runtime where
  "refRuntime =
     \<lparr>dateTime = refDateTime, toDouble = Finite, showDouble = (\<lambda>q. []),
      randomId = (\<lambda>k. ''id'' @ natToString k), toISODate = refISODate,
      addLocalDay = (\<lambda>t. t + dayMs)\<rparr>"

section \<open>Notions used in the statements\<close>

definition validDates :: "runtime \<Rightarrow> Observation list \<Rightarrow> bool" where
  \<comment> \<open>every date is one the engine's \<open>Date\<close> reads\<close>
  "validDates rt xs = list_all (\<lambda>x. dateTime rt (date x) \<noteq> None) xs"

definition notOlder :: "runtime \<Rightarrow> Observation \<Rightarrow> Observation \<Rightarrow> bool" where
  \<comment> \<open>\<open>a\<close> may stand before \<open>b\<close> in a list sorted by date, newest first\<close>
  "notOlder rt a b =
     (case (dateTime rt (date a), dateTime rt (date b)) of
        (Some ta, Some tb) \<Rightarrow> tb \<le> ta
      | _ \<Rightarrow> True)"

definition sortedNewestFirst :: "runtime \<Rightarrow> Observation list \<Rightarrow> bool" where
  "sortedNewestFirst rt xs = sorted_wrt (notOlder rt) xs"

definition uniqueDates :: "slot \<Rightarrow> bool" where
  \<comment> \<open>no two persisted observations have the same date\<close>
  "uniqueDates st = (case st of Saved xs \<Rightarrow> distinct (map date xs) | _ \<Rightarrow> True)"

definition rowAccepted :: "runtime \<Rightarrow> char \<Rightarrow> string \<Rightarrow> bool" where
  \<comment> \<open>the loop pushes a record for this line\<close>
  "rowAccepted rt delimiter raw \<longleftrightarrow> parseRow rt delimiter 0 raw \<noteq> None"

definition specAccepts :: "runtime \<Rightarrow> char \<Rightarrow> string \<Rightarrow> bool" where
  \<comment> \<open>The acceptance condition in the words of the specification (4.2): split the row on
      the delimiter, trim each field; at least three fields, a date the normalizer
      accepts, and figs and bats that coerce to a number.\<close>
  "specAccepts rt delimiter row \<longleftrightarrow>
     (let fields = map trim (splitOn delimiter row)
      in 3 \<le> length fields \<and> parseDate rt (fields ! 0) \<noteq> None \<and>
         \<not> isNaN (parseValue rt (fields ! 1)) \<and> \<not> isNaN (parseValue rt (fields ! 2)))"

definition servesRange :: "runtime \<Rightarrow> int \<Rightarrow> int \<Rightarrow> WeatherData list \<Rightarrow> bool" where
  \<comment> \<open>an endpoint's answer to a query for the days from \<open>lo\<close> to \<open>hi\<close> (as instants):
      each day at most once, and only days of the range\<close>
  "servesRange rt lo hi xs \<longleftrightarrow>
     distinct (map date_w xs) \<and>
     list_all (\<lambda>x. case dateTime rt (date_w x) of Some t \<Rightarrow> lo \<le> t \<and> t \<le> hi | None \<Rightarrow> False) xs"

definition combineLegs :: "fetched \<Rightarrow> fetched \<Rightarrow> WeatherData list" where
  \<comment> \<open>what the straddling case returns for the outcomes of the archive and the forecast
      request: both contributions when both promises resolve and both bodies can be
      read, nothing otherwise\<close>
  "combineLegs a f =
     (case (a, f) of
        (Resolved ra, Resolved rf) \<Rightarrow>
          (case (legResults ra, legResults rf) of
             (Some xs, Some ys) \<Rightarrow> xs @ ys
           | _ \<Rightarrow> [])
      | _ \<Rightarrow> [])"

definition lf :: string where
  "lf = [CHR 0x0A]"

definition tab :: string where
  "tab = [CHR 0x09]"

section \<open>Well-formed delimited text, for the round trip\<close>

text \<open>
  The input of the round trip is described on its own terms, not with the printer of
  the export. A row is four texts: a date of the shape \<open>YYYY-MM-DD\<close> that the engine
  reads, and three integers in canonical decimal writing (an optional minus sign, no
  leading zero, no \<open>-0\<close>, at most fifteen digits, so that a double holds the value). The
  fields of a line are joined by a comma or by a tab, the lines by LF or by CR LF, and
  the header line may stand first. \<open>intValue\<close> reads the integer a text denotes, digit by
  digit with powers of ten. \<open>exactIntegers\<close> is the property of doubles that \<open>parseFloat\<close>
  of a decimal integer below \<open>2^53\<close> is that integer.
\<close>

type_synonym row = "string \<times> string \<times> string \<times> string"

definition crlf :: string where
  "crlf = [CHR 0x0D, CHR 0x0A]"

definition isDelim :: "char \<Rightarrow> bool" where
  \<comment> \<open>the two delimiters \<open>detectDelimiter\<close> knows\<close>
  "isDelim c \<longleftrightarrow> c = CHR '','' \<or> c = CHR 0x09"

definition canonicalNat :: "string \<Rightarrow> bool" where
  "canonicalNat ds \<longleftrightarrow>
     ds \<noteq> [] \<and> list_all isDigit ds \<and> (1 < length ds \<longrightarrow> hd ds \<noteq> CHR ''0'') \<and> length ds \<le> 15"

definition canonicalInt :: "string \<Rightarrow> bool" where
  "canonicalInt t \<longleftrightarrow>
     (case t of
        [] \<Rightarrow> False
      | c # ds \<Rightarrow> if c = CHR ''-'' then canonicalNat ds \<and> ds \<noteq> ''0'' else canonicalNat t)"

definition digitOf :: "char \<Rightarrow> nat" where
  \<comment> \<open>the place of a digit in the row of digits\<close>
  "digitOf c = length (takeWhile (\<lambda>x. x \<noteq> c) ''0123456789'')"

fun decimalValue :: "string \<Rightarrow> nat" where
  "decimalValue [] = 0"
| "decimalValue (c # cs) = digitOf c * 10 ^ length cs + decimalValue cs"

definition intValue :: "string \<Rightarrow> int" where
  "intValue t =
     (case t of
        [] \<Rightarrow> 0
      | c # ds \<Rightarrow> if c = CHR ''-'' then - int (decimalValue ds) else int (decimalValue t))"

definition wellFormedRow :: "runtime \<Rightarrow> row \<Rightarrow> bool" where
  "wellFormedRow rt r = (case r of (d, f, b, l) \<Rightarrow>
      isYMD d \<and> dateTime rt d \<noteq> None \<and> canonicalInt f \<and> canonicalInt b \<and> canonicalInt l)"

definition lineOf :: "char \<Rightarrow> row \<Rightarrow> string" where
  "lineOf delim r = (case r of (d, f, b, l) \<Rightarrow> d @ [delim] @ f @ [delim] @ b @ [delim] @ l)"

definition headerOf :: "char \<Rightarrow> string" where
  "headerOf delim = ''Date'' @ [delim] @ ''Figs'' @ [delim] @ ''Bats'' @ [delim] @ ''Leaves''"

definition textOf :: "string \<Rightarrow> char \<Rightarrow> bool \<Rightarrow> row list \<Rightarrow> string" where
  "textOf sep delim hdr rows =
     joinWith sep ((if hdr then [headerOf delim] else []) @ map (lineOf delim) rows)"

definition rowValues :: "row \<Rightarrow> string \<times> number \<times> number \<times> number" where
  \<comment> \<open>the date, figs, bats and leaves a row denotes\<close>
  "rowValues r = (case r of (d, f, b, l) \<Rightarrow>
      (d, Finite (of_int (intValue f)), Finite (of_int (intValue b)), Finite (of_int (intValue l))))"

definition valuesOf :: "Observation \<Rightarrow> string \<times> number \<times> number \<times> number" where
  \<comment> \<open>the date, figs, bats and leaves of a record\<close>
  "valuesOf x = (date x, figs x, bats x, leaves x)"

definition rowNewestFirst :: "runtime \<Rightarrow> row \<Rightarrow> row \<Rightarrow> int option" where
  \<comment> \<open>the comparator of the import, on the dates of two rows\<close>
  "rowNewestFirst rt a b =
     (case (dateTime rt (fst b), dateTime rt (fst a)) of
        (Some tb, Some ta) \<Rightarrow> Some (tb - ta)
      | _ \<Rightarrow> None)"

definition exactIntegers :: "runtime \<Rightarrow> bool" where
  "exactIntegers rt \<longleftrightarrow> (\<forall>n::nat. n < 2 ^ 53 \<longrightarrow> toDouble rt (of_nat n) = Finite (of_nat n))"

definition obsOfRow :: "runtime \<Rightarrow> nat \<Rightarrow> row \<Rightarrow> Observation" where
  \<comment> \<open>the record with the \<open>k\<close>-th identifier and the values of a row\<close>
  "obsOfRow rt k r = (case r of (d, f, b, l) \<Rightarrow>
      \<lparr>idStr = randomId rt k, date = d, bats = Finite (of_int (intValue b)),
       figs = Finite (of_int (intValue f)), leaves = Finite (of_int (intValue l)),
       rain = None, tempMax = None\<rparr>)"

fun numberRows :: "runtime \<Rightarrow> nat \<Rightarrow> row list \<Rightarrow> Observation list" where
  "numberRows rt n [] = []"
| "numberRows rt n (r # rs) = obsOfRow rt n r # numberRows rt (Suc n) rs"

subsection \<open>Auxiliary predicates on text\<close>

definition tidy :: "string \<Rightarrow> bool" where
  "tidy s \<longleftrightarrow> s \<noteq> [] \<and> \<not> isWhite (hd s) \<and> \<not> isWhite (last s)"

definition plainLine :: "string \<Rightarrow> bool" where
  "plainLine l \<longleftrightarrow> CHR 0x0A \<notin> set l \<and> CHR 0x0D \<notin> set l"

definition fieldChar :: "char \<Rightarrow> bool" where
  "fieldChar c \<longleftrightarrow> isDigit c \<or> c = CHR ''-''"

section \<open>Concrete inputs for the closed instances\<close>

definition obsA :: Observation where
  "obsA = \<lparr>idStr = ''a1'', date = ''2023-10-01'', bats = Finite 10, figs = Finite 20,
           leaves = Finite 50, rain = None, tempMax = None\<rparr>"

definition obsB :: Observation where
  "obsB = \<lparr>idStr = ''b2'', date = ''2023-09-01'', bats = Finite 1, figs = Finite 2,
           leaves = Finite 3, rain = None, tempMax = None\<rparr>"

definition obsNew :: Observation where
  "obsNew = \<lparr>idStr = ''n3'', date = ''2023-10-01'', bats = Finite 7, figs = Finite 8,
             leaves = Finite 9, rain = None, tempMax = None\<rparr>"

definition obsOld :: Observation where
  "obsOld = \<lparr>idStr = ''o5'', date = ''2021-06-01'', bats = Finite 4, figs = Finite 4,
             leaves = Finite 4, rain = None, tempMax = None\<rparr>"

definition csvImpossibleDate :: string where
  \<comment> \<open>two rows; the first names the 45th day of a 13th month\<close>
  "csvImpossibleDate = ''45/13/2024,1,1,0'' @ lf @ ''01/10/2023,20,10,50''"

definition csvSameDate :: string where
  "csvSameDate = ''2023-10-01,1,2'' @ lf @ ''2023-10-01,3,4''"

definition tsvEmptyBats :: string where
  \<comment> \<open>tab-separated; the bats cell of the first row is empty\<close>
  "tsvEmptyBats = ''2023-10-01'' @ tab @ ''5'' @ tab @ lf @ ''2023-10-02'' @ tab @ ''1'' @ tab @ ''2''"

definition csvEmptyBats :: string where
  \<comment> \<open>the same rows, comma-separated\<close>
  "csvEmptyBats = ''2023-10-01,5,'' @ lf @ ''2023-10-02,1,2''"

definition fetchCsv :: "string \<Rightarrow> fetched" where
  \<comment> \<open>a server that answers every request with one CSV row\<close>
  "fetchCsv u = Resolved \<lparr>contentType = Some ''text/csv'', ok = True, status = 200,
                           bodyText = ''2023-10-01,20,10,50'', json = None\<rparr>"

definition now0 :: int where
  \<comment> \<open>2023-11-08T10:00:00Z; seven days earlier is 2023-11-01T10:00:00Z\<close>
  "now0 = 1699437600000"

definition archiveOk :: response where
  "archiveOk = \<lparr>contentType = Some ''application/json'', ok = True, status = 200, bodyText = [],
     json = Some (JsonDaily (Some [''2023-10-31'', ''2023-11-01''])
                            (Some [Some (Finite 25), None])
                            (Some [Some (Finite 0), Some (Finite 3)]))\<rparr>"

definition forecastOk :: response where
  "forecastOk = \<lparr>contentType = Some ''application/json'', ok = True, status = 200, bodyText = [],
     json = Some (JsonDaily (Some [''2023-11-02''])
                            (Some [Some (Finite 27)])
                            (Some [Some (Finite 1)]))\<rparr>"

definition serverError :: response where
  "serverError = \<lparr>contentType = None, ok = False, status = 500, bodyText = [], json = None\<rparr>"

definition archiveDays :: "WeatherData list" where
  "archiveDays = [\<lparr>date_w = ''2023-10-31'', rain_w = Finite 0, tempMax_w = Finite 25\<rparr>,
                  \<lparr>date_w = ''2023-11-01'', rain_w = Finite 3, tempMax_w = Finite 0\<rparr>]"

definition forecastDays :: "WeatherData list" where
  "forecastDays = [\<lparr>date_w = ''2023-11-02'', rain_w = Finite 1, tempMax_w = Finite 27\<rparr>]"

definition fetchBoth :: "string \<Rightarrow> fetched" where
  \<comment> \<open>both endpoints answer\<close>
  "fetchBoth u =
     (if u = archiveUrl ''2023-10-20'' ''2023-11-01'' then Resolved archiveOk
      else if u = forecastUrl ''2023-11-02'' ''2023-11-05'' then Resolved forecastOk
      else Rejected ''Failed to fetch'')"

definition fetchArchiveOnly :: "string \<Rightarrow> fetched" where
  \<comment> \<open>the archive endpoint answers, every other request fails in transport\<close>
  "fetchArchiveOnly u =
     (if u = archiveUrl ''2023-10-20'' ''2023-11-01'' then Resolved archiveOk
      else Rejected ''Failed to fetch'')"

definition fetchArchiveDown :: "string \<Rightarrow> fetched" where
  \<comment> \<open>the archive endpoint answers with status 500, the forecast endpoint answers\<close>
  "fetchArchiveDown u =
     (if u = archiveUrl ''2023-10-20'' ''2023-11-01'' then Resolved serverError
      else if u = forecastUrl ''2023-11-02'' ''2023-11-05'' then Resolved forecastOk
      else Rejected ''Failed to fetch'')"

definition rows0 :: "row list" where
  "rows0 = [(''2023-10-01'', ''20'', ''10'', ''50''), (''2023-10-02'', ''25'', ''-15'', ''0'')]"

text \<open>
  A browser in the zone America/New_York in March 2024. Clocks go forward on 10 March
  at 07:00 UTC (02:00 local becomes 03:00), so that local day has 23 hours. \<open>setDate\<close>
  keeps the local time of day: for an instant \<open>t\<close> in the 23 hours before the switch, the
  same local time on the next local day is the instant \<open>t\<close> plus 23 hours. (An hour
  earlier, the local time of the next day falls into the skipped hour and the engine
  moves it on, which is 24 hours after \<open>t\<close>.) Reading a date-only string and
  \<open>toISOString\<close> work in UTC and do not depend on the zone.
\<close>

definition springForward :: int where
  \<comment> \<open>2024-03-10T07:00:00Z\<close>
  "springForward = 1710054000000"

definition dstRuntime :: runtime where
  "dstRuntime =
     refRuntime\<lparr>addLocalDay :=
       (\<lambda>t. if springForward - 23 * 60 * 60 * 1000 \<le> t \<and> t < springForward
            then t + 23 * 60 * 60 * 1000 else t + dayMs)\<rparr>"

definition nowDst :: int where
  \<comment> \<open>2024-03-17T00:30:00Z; seven days earlier is 2024-03-10T00:30:00Z, in New York
      19:30 of 9 March\<close>
  "nowDst = 1710635400000"

definition archiveDst :: response where
  "archiveDst = \<lparr>contentType = Some ''application/json'', ok = True, status = 200, bodyText = [],
     json = Some (JsonDaily (Some [''2024-03-08'', ''2024-03-09'', ''2024-03-10''])
                            (Some [Some (Finite 28), Some (Finite 29), Some (Finite 30)])
                            (Some [Some (Finite 0), Some (Finite 2), Some (Finite 4)]))\<rparr>"

definition forecastDst :: response where
  "forecastDst = \<lparr>contentType = Some ''application/json'', ok = True, status = 200, bodyText = [],
     json = Some (JsonDaily (Some [''2024-03-10'', ''2024-03-11'', ''2024-03-12''])
                            (Some [Some (Finite 30), Some (Finite 31), Some (Finite 27)])
                            (Some [Some (Finite 4), Some (Finite 0), Some (Finite 1)]))\<rparr>"

definition archiveDstDays :: "WeatherData list" where
  "archiveDstDays = [\<lparr>date_w = ''2024-03-08'', rain_w = Finite 0, tempMax_w = Finite 28\<rparr>,
                     \<lparr>date_w = ''2024-03-09'', rain_w = Finite 2, tempMax_w = Finite 29\<rparr>,
                     \<lparr>date_w = ''2024-03-10'', rain_w = Finite 4, tempMax_w = Finite 30\<rparr>]"

definition forecastDstDays :: "WeatherData list" where
  "forecastDstDays = [\<lparr>date_w = ''2024-03-10'', rain_w = Finite 4, tempMax_w = Finite 30\<rparr>,
                      \<lparr>date_w = ''2024-03-11'', rain_w = Finite 0, tempMax_w = Finite 31\<rparr>,
                      \<lparr>date_w = ''2024-03-12'', rain_w = Finite 1, tempMax_w = Finite 27\<rparr>]"

definition fetchDst :: "string \<Rightarrow> fetched" where
  \<comment> \<open>each endpoint answers a request for 8 to 10 March (archive) or for 10 to 12 March
      (forecast) with the three days asked for; every other request fails in transport\<close>
  "fetchDst u =
     (if u = ''https://archive-api.open-meteo.com/v1/archive?latitude=-26.66&longitude=152.96&start_date=2024-03-08&end_date=2024-03-10&daily=temperature_2m_max,precipitation_sum&timezone=Australia%2FBrisbane''
      then Resolved archiveDst
      else if u = ''https://api.open-meteo.com/v1/forecast?latitude=-26.66&longitude=152.96&start_date=2024-03-10&end_date=2024-03-12&daily=temperature_2m_max,precipitation_sum&timezone=Australia%2FBrisbane''
      then Resolved forecastDst
      else Rejected ''Failed to fetch'')"

section \<open>Properties of the Date Normalizer\<close>

lemma isDigit_not_white: "isDigit c \<Longrightarrow> \<not> isWhite c"
  by (auto simp: isDigit_def isWhite_def)

lemma isDigit_not_sep: "isDigit c \<Longrightarrow> \<not> isSep c"
  by (auto simp: isDigit_def isSep_def)

lemma isSep_not_digit: "isSep c \<Longrightarrow> \<not> isDigit c"
  by (auto simp: isDigit_def isSep_def)

lemma trim_id: "s \<noteq> [] \<Longrightarrow> \<not> isWhite (hd s) \<Longrightarrow> \<not> isWhite (last s) \<Longrightarrow> trim s = s"
proof -
  assume a: "s \<noteq> []" "\<not> isWhite (hd s)" "\<not> isWhite (last s)"
  have 1: "dropWhile isWhite s = s" using a by (cases s) auto
  have 2: "dropWhile isWhite (rev s) = rev s" using a by (cases "rev s") (auto simp: last_rev hd_rev)
  show ?thesis by (simp add: trim_def 1 2)
qed

lemma trim_Nil [simp]: "trim [] = []"
  by (simp add: trim_def)

lemma datePartOf_id: "CHR '' '' \<notin> set s \<Longrightarrow> datePartOf s = s"
  by (auto simp: datePartOf_def takeWhile_eq_all_conv)

lemma takeWhile_digits: "list_all isDigit ds \<Longrightarrow> \<not> isDigit c \<Longrightarrow> takeWhile isDigit (ds @ c # r) = ds"
  by (simp add: list_all_iff takeWhile_append2)

lemma dropWhile_digits: "list_all isDigit ds \<Longrightarrow> \<not> isDigit c \<Longrightarrow> dropWhile isDigit (ds @ c # r) = c # r"
  by (simp add: list_all_iff dropWhile_append2)

lemma slashMatch_build:
  assumes "list_all isDigit dd" "1 \<le> length dd" "length dd \<le> 2"
    "list_all isDigit mm" "1 \<le> length mm" "length mm \<le> 2"
    "list_all isDigit yy" "2 \<le> length yy" "length yy \<le> 4" "isSep s1" "isSep s2"
  shows "slashMatch (dd @ s1 # mm @ s2 # yy) = Some (dd, mm, yy)"
  using assms by (simp add: slashMatch_def takeWhile_digits dropWhile_digits isSep_not_digit)

lemma slashMatch_SomeD:
  assumes "slashMatch s = Some (dd, mm, yy)"
  shows "\<exists>s1 s2. s = dd @ s1 # mm @ s2 # yy \<and> isSep s1 \<and> isSep s2 \<and>
     list_all isDigit dd \<and> 1 \<le> length dd \<and> length dd \<le> 2 \<and>
     list_all isDigit mm \<and> 1 \<le> length mm \<and> length mm \<le> 2 \<and>
     list_all isDigit yy \<and> 2 \<le> length yy \<and> length yy \<le> 4"
proof -
  from assms obtain c1 r where r: "dropWhile isDigit s = c1 # r" and dd: "dd = takeWhile isDigit s"
    and f1: "isSep c1" "1 \<le> length dd" "length dd \<le> 2"
    by (auto simp: slashMatch_def Let_def split: list.splits if_splits)
  from assms r obtain c2 where y: "dropWhile isDigit r = c2 # yy" and mm: "mm = takeWhile isDigit r"
    and f2: "isSep c2" "1 \<le> length mm" "length mm \<le> 2"
       "list_all isDigit yy" "2 \<le> length yy" "length yy \<le> 4"
    by (auto simp: slashMatch_def Let_def split: list.splits if_splits)
  have s: "s = dd @ c1 # mm @ c2 # yy"
    using takeWhile_dropWhile_id[of isDigit s] takeWhile_dropWhile_id[of isDigit r] r y dd mm by simp
  have f3: "list_all isDigit dd" "list_all isDigit mm"
    unfolding dd mm list_all_iff by (auto dest: set_takeWhileD)
  show ?thesis
    using s f1 f2 f3 by blast
qed

lemma isoMatch_build:
  assumes "list_all isDigit y" "length y = 4"
    "list_all isDigit mm" "1 \<le> length mm" "length mm \<le> 2"
    "list_all isDigit dd" "1 \<le> length dd" "length dd \<le> 2" "isSep s1" "isSep s2"
  shows "isoMatch (y @ s1 # mm @ s2 # dd) = Some (y, mm, dd)"
  using assms by (simp add: isoMatch_def takeWhile_digits dropWhile_digits isSep_not_digit)

lemma isoMatch_SomeD:
  assumes "isoMatch s = Some (y, mm, dd)"
  shows "\<exists>s1 s2. s = y @ s1 # mm @ s2 # dd \<and> isSep s1 \<and> isSep s2 \<and>
     list_all isDigit y \<and> length y = 4 \<and>
     list_all isDigit mm \<and> 1 \<le> length mm \<and> length mm \<le> 2 \<and>
     list_all isDigit dd \<and> 1 \<le> length dd \<and> length dd \<le> 2"
proof -
  from assms obtain c1 r where r: "drop 4 s = c1 # r" and y: "y = take 4 s"
    and f1: "length y = 4" "list_all isDigit y" "isSep c1"
    by (auto simp: isoMatch_def Let_def split: list.splits if_splits)
  from assms r obtain c2 where d: "dropWhile isDigit r = c2 # dd" and mm: "mm = takeWhile isDigit r"
    and f2: "isSep c2" "1 \<le> length mm" "length mm \<le> 2"
       "list_all isDigit dd" "1 \<le> length dd" "length dd \<le> 2"
    by (auto simp: isoMatch_def Let_def split: list.splits if_splits)
  have s: "s = y @ c1 # mm @ c2 # dd"
    using append_take_drop_id[of 4 s] takeWhile_dropWhile_id[of isDigit r] r d y mm by simp
  have f3: "list_all isDigit mm"
    unfolding mm list_all_iff by (auto dest: set_takeWhileD)
  show ?thesis
    using s f1 f2 f3 by blast
qed

lemma isoMatch_slash_None:
  assumes "list_all isDigit dd" "1 \<le> length dd" "length dd \<le> 2" "isSep s1"
  shows "isoMatch (dd @ s1 # r) = None"
proof -
  have "\<not> list_all isDigit (take 4 (dd @ s1 # r))" if "length (take 4 (dd @ s1 # r)) = 4"
  proof -
    have "s1 \<in> set (take 4 (dd @ s1 # r))"
      using assms by (cases dd; cases "tl dd") (auto)
    then show ?thesis using assms(4) by (auto simp: list_all_iff dest: isSep_not_digit)
  qed
  then show ?thesis by (auto simp: isoMatch_def Let_def)
qed

lemma isSep_not_white: "isSep c \<Longrightarrow> \<not> isWhite c"
  by (auto simp: isSep_def isWhite_def)

lemma isDigit_not_space: "isDigit c \<Longrightarrow> c \<noteq> CHR '' ''"
  by (auto simp: isDigit_def)

lemma isSep_not_space: "isSep c \<Longrightarrow> c \<noteq> CHR '' ''"
  by (auto simp: isSep_def)

text \<open>A date text of digits and two separators passes \<open>trim\<close> and the cut at the first space unchanged.\<close>

lemma dateText_plain:
  assumes "list_all isDigit a" "a \<noteq> []" "list_all isDigit b" "list_all isDigit c" "c \<noteq> []"
    "isSep s1" "isSep s2"
  shows "datePartOf (trim (a @ s1 # b @ s2 # c)) = a @ s1 # b @ s2 # c"
proof -
  let ?s = "a @ s1 # b @ s2 # c"
  have h: "hd ?s = hd a" "last ?s = last c" using assms by auto
  have "isDigit (hd a)" "isDigit (last c)" using assms by (auto simp: list_all_iff)
  then have t: "trim ?s = ?s"
    using h by (intro trim_id) (auto dest: isDigit_not_white)
  have "CHR '' '' \<notin> set ?s"
    using assms by (auto simp: list_all_iff dest: isDigit_not_space isSep_not_space)
  then show ?thesis by (simp add: t datePartOf_id)
qed

lemma parseDate_slash:
  assumes "list_all isDigit dd" "1 \<le> length dd" "length dd \<le> 2"
    "list_all isDigit mm" "1 \<le> length mm" "length mm \<le> 2"
    "list_all isDigit yy" "2 \<le> length yy" "length yy \<le> 4" "isSep s1" "isSep s2"
  shows "parseDate rt (dd @ s1 # mm @ s2 # yy) =
    Some ((if length yy = 2 then ''20'' @ yy else yy) @ ''-'' @ padStart2 mm @ ''-'' @ padStart2 dd)"
proof -
  have ne: "dd \<noteq> []" "yy \<noteq> []" using assms by auto
  have p: "datePartOf (trim (dd @ s1 # mm @ s2 # yy)) = dd @ s1 # mm @ s2 # yy"
    using assms ne by (intro dateText_plain) auto
  have i: "isoMatch (dd @ s1 # mm @ s2 # yy) = None"
    using assms by (intro isoMatch_slash_None) auto
  have sl: "slashMatch (dd @ s1 # mm @ s2 # yy) = Some (dd, mm, yy)"
    using assms by (intro slashMatch_build) auto
  show ?thesis
    using ne by (simp add: parseDate_def p i sl Let_def)
qed

lemma padStart2_two: "length s = 2 \<Longrightarrow> padStart2 s = s"
  by (simp add: padStart2_def)

lemma length_padStart2: "1 \<le> length s \<Longrightarrow> length s \<le> 2 \<Longrightarrow> length (padStart2 s) = 2"
  unfolding padStart2_def by simp

lemma isDigit_zero: "isDigit (CHR ''0'')"
  by (simp add: isDigit_def)

lemma digits_padStart2: "list_all isDigit s \<Longrightarrow> list_all isDigit (padStart2 s)"
  unfolding padStart2_def by (auto simp: list_all_iff isDigit_zero)

lemma isYMD_build:
  assumes "list_all isDigit y" "length y = 4" "list_all isDigit m" "length m = 2"
    "list_all isDigit d" "length d = 2"
  shows "isYMD (y @ ''-'' @ m @ ''-'' @ d)"
  using assms by (simp add: isYMD_def nth_append)

text \<open>On a text of the shape \<open>YYYY-MM-DD\<close> the normalizer only asks the engine.\<close>

lemma parseDate_canonical:
  assumes "list_all isDigit y" "length y = 4" "list_all isDigit m" "length m = 2"
    "list_all isDigit d" "length d = 2"
  shows "parseDate rt (y @ ''-'' @ m @ ''-'' @ d) =
    (if dateTime rt (y @ ''-'' @ m @ ''-'' @ d) \<noteq> None then Some (y @ ''-'' @ m @ ''-'' @ d) else None)"
proof -
  have sep: "isSep (CHR ''-'')" by (simp add: isSep_def)
  have ne: "y \<noteq> []" "d \<noteq> []" using assms by auto
  have p: "datePartOf (trim (y @ CHR ''-'' # m @ CHR ''-'' # d)) = y @ CHR ''-'' # m @ CHR ''-'' # d"
    using assms ne sep by (intro dateText_plain) auto
  have i: "isoMatch (y @ CHR ''-'' # m @ CHR ''-'' # d) = Some (y, m, d)"
    using assms sep by (intro isoMatch_build) auto
  show ?thesis
    using ne assms by (simp add: parseDate_def p i Let_def padStart2_two)
qed

lemma parseDate_shape:
  assumes "parseDate rt s = Some r" "\<not> threeDigitYear s"
  shows "\<exists>y m d. r = y @ ''-'' @ m @ ''-'' @ d \<and> list_all isDigit y \<and> length y = 4 \<and>
     list_all isDigit m \<and> length m = 2 \<and> list_all isDigit d \<and> length d = 2"
proof (cases "isoMatch (datePartOf (trim s))")
  case (Some t)
  obtain y m d where t: "t = (y, m, d)" by (cases t) auto
  from isoMatch_SomeD[OF Some[unfolded t]] have
    f: "list_all isDigit y" "length y = 4" "list_all isDigit m" "1 \<le> length m" "length m \<le> 2"
       "list_all isDigit d" "1 \<le> length d" "length d \<le> 2" by auto
  have "r = y @ ''-'' @ padStart2 m @ ''-'' @ padStart2 d"
    using assms(1) Some t by (auto simp: parseDate_def Let_def split: if_splits)
  then show ?thesis
    using f by (blast intro: digits_padStart2 length_padStart2)
next
  case None
  show ?thesis
  proof (cases "slashMatch (datePartOf (trim s))")
    case (Some t)
    obtain d m y where t: "t = (d, m, y)" by (cases t) auto
    from slashMatch_SomeD[OF Some[unfolded t]] have
      f: "list_all isDigit y" "2 \<le> length y" "length y \<le> 4" "list_all isDigit m" "1 \<le> length m"
         "length m \<le> 2" "list_all isDigit d" "1 \<le> length d" "length d \<le> 2" by auto
    have y3: "length y \<noteq> 3" using assms(2) Some t by (simp add: threeDigitYear_def)
    define yr where "yr = (if length y = 2 then ''20'' @ y else y)"
    have yr: "list_all isDigit yr" "length yr = 4"
      using f y3 by (auto simp: yr_def isDigit_def)
    have "r = yr @ ''-'' @ padStart2 m @ ''-'' @ padStart2 d"
      using assms(1) None Some t by (auto simp: parseDate_def Let_def yr_def split: if_splits)
    then show ?thesis
      using f yr by (blast intro: digits_padStart2 length_padStart2)
  next
    case None2: None
    from assms(1) None None2 obtain day month year where
      c: "compactMatch (datePartOf (trim s)) = Some (day, month, year)"
      and r: "r = year @ ''-'' @ month @ ''-'' @ day"
      by (auto simp: parseDate_def Let_def split: if_splits option.splits)
    from c have "list_all isDigit year" "length year = 4" "list_all isDigit month" "length month = 2"
      "list_all isDigit day" "length day = 2"
      by (auto simp: compactMatch_def list_all_iff split: if_splits dest: in_set_takeD in_set_dropD)
    with r show ?thesis by blast
  qed
qed

text \<open>
  Claim C2, as amended. The claim says that every accepted input yields a \<open>YYYY-MM-DD\<close>
  string that the normalizer maps to itself. The second and third patterns do not check
  the calendar, so \<open>45/13/2024\<close> is accepted and yields \<open>2024-13-45\<close>, which the first
  pattern then rejects. What holds: for every accepted input (a year group of three
  digits in the second pattern set aside), the output has the shape \<open>YYYY-MM-DD\<close>;
  feeding it back returns the same string when the engine reads it as a date and fails
  otherwise; and when the input is of the first form (year first), feeding it back
  always returns the same string.
\<close>

theorem parseDate_refeed:
  assumes "parseDate rt s = Some r" and "\<not> threeDigitYear s"
  shows "isYMD r \<and> parseDate rt r = (if dateTime rt r \<noteq> None then Some r else None) \<and>
         (isoForm s \<longrightarrow> parseDate rt r = Some r)"
proof -
  from parseDate_shape[OF assms] obtain y m d where
    "r = y @ ''-'' @ m @ ''-'' @ d" "list_all isDigit y" "length y = 4"
     "list_all isDigit m" "length m = 2" "list_all isDigit d" "length d = 2" by blast
  then have a: "isYMD r"
    and b: "parseDate rt r = (if dateTime rt r \<noteq> None then Some r else None)"
    using isYMD_build[of y m d] parseDate_canonical[of y m d rt] by simp_all
  have c: "parseDate rt r = Some r" if "isoForm s"
  proof -
    from that obtain t where "isoMatch (datePartOf (trim s)) = Some t"
      by (auto simp: isoForm_def)
    with assms(1) have "dateTime rt r \<noteq> None"
      by (auto simp: parseDate_def Let_def split: if_splits prod.splits)
    with b show ?thesis by simp
  qed
  from a b c show ?thesis by blast
qed

lemma parseDate_slash_example: "parseDate refRuntime ''01/10/2023'' = Some ''2023-10-01''"
  by (simp add: parseDate_def trim_def isWhite_def datePartOf_def isoMatch_def slashMatch_def
      isDigit_def isSep_def padStart2_def Let_def)

lemma threeDigitYear_example: "\<not> threeDigitYear ''01/10/2023''"
  by (simp add: threeDigitYear_def trim_def isWhite_def datePartOf_def slashMatch_def
      isDigit_def isSep_def Let_def)

lemma refDateTime_example: "refDateTime ''2023-10-01'' = Some 1696118400000"
  by (simp add: refDateTime_def isYMD_def isDigit_def digitsVal_def digitVal_def Let_def
      daysInMonth_def daysFromCivil_def dayMs_def)

lemma parseDate_iso_example:
  "parseDate refRuntime ''2023/1/5'' = Some ''2023-01-05''" "\<not> threeDigitYear ''2023/1/5''"
  "isoForm ''2023/1/5''"
  by code_simp+

theorem parseDate_refeed_witness:
  "parseDate refRuntime ''01/10/2023'' = Some ''2023-10-01'' \<and> \<not> threeDigitYear ''01/10/2023'' \<and>
   isYMD ''2023-10-01'' \<and> parseDate refRuntime ''2023-10-01'' = Some ''2023-10-01'' \<and>
   parseDate refRuntime ''2023/1/5'' = Some ''2023-01-05'' \<and> \<not> threeDigitYear ''2023/1/5'' \<and>
   isoForm ''2023/1/5'' \<and> isYMD ''2023-01-05'' \<and>
   parseDate refRuntime ''2023-01-05'' = Some ''2023-01-05''"
proof -
  note a = parseDate_refeed[OF parseDate_slash_example threeDigitYear_example]
  note b = parseDate_refeed[OF parseDate_iso_example(1) parseDate_iso_example(2)]
  have d: "dateTime refRuntime ''2023-10-01'' \<noteq> None"
    by (simp add: refRuntime_def refDateTime_example)
  from a d have a': "parseDate refRuntime ''2023-10-01'' = Some ''2023-10-01''" by simp
  from b parseDate_iso_example(3)
  have b': "parseDate refRuntime ''2023-01-05'' = Some ''2023-01-05''" by blast
  from a a' b b' parseDate_slash_example threeDigitYear_example parseDate_iso_example
  show ?thesis by blast
qed

text \<open>
  The claim C2 as stated fails: an accepted input whose output is not a fixed point.
\<close>

theorem parseDate_refeed_counterexample:
  "parseDate refRuntime ''45/13/2024'' = Some ''2024-13-45'' \<and>
   parseDate refRuntime ''2024-13-45'' = None"
  by (simp add: parseDate_def trim_def isWhite_def datePartOf_def isoMatch_def slashMatch_def
      isDigit_def isSep_def padStart2_def Let_def refRuntime_def refDateTime_def isYMD_def
      digitsVal_def digitVal_def)

text \<open>
  Claim C9: a day-first input with a two-digit year \<open>YY\<close> (one or two digits of day and of
  month, separators \<open>/\<close> or \<open>-\<close>) yields the year \<open>20YY\<close> whatever \<open>YY\<close> is, with month
  and day padded to two digits.
\<close>

theorem parseDate_two_digit_year:
  assumes "list_all isDigit dd" "1 \<le> length dd" "length dd \<le> 2"
    and "list_all isDigit mm" "1 \<le> length mm" "length mm \<le> 2"
    and "list_all isDigit yy" "length yy = 2" and "isSep s1" "isSep s2"
  shows "parseDate rt (dd @ s1 # mm @ s2 # yy) = Some (''20'' @ yy @ ''-'' @ padStart2 mm @ ''-'' @ padStart2 dd)"
  using parseDate_slash[of dd mm yy s1 s2 rt] assms by simp

theorem parseDate_two_digit_year_witness:
  "parseDate refRuntime ''01/10/99'' = Some ''2099-10-01''"
  using parseDate_two_digit_year[of "''01''" "''10''" "''99''" "CHR ''/''" "CHR ''/''" refRuntime]
  by (simp add: isDigit_def isSep_def padStart2_def)

section \<open>Properties of the sort and of the Observation Store\<close>

lemma mset_insertJS: "mset (insertJS cmp x xs) = add_mset x (mset xs)"
  by (induction xs) auto

lemma mset_sortJS: "mset (sortJS cmp xs) = mset xs"
  unfolding sortJS_def by (induction xs) (auto simp: mset_insertJS)

lemma set_sortJS: "set (sortJS cmp xs) = set xs"
  using mset_sortJS[of cmp xs] by (metis set_mset_mset)

lemma length_sortJS: "length (sortJS cmp xs) = length xs"
  using mset_sortJS[of cmp xs] by (metis size_mset)

lemma sortJS_Nil_iff: "sortJS cmp xs = [] \<longleftrightarrow> xs = []"
  using length_sortJS[of cmp xs] by auto

lemma set_insertJS: "set (insertJS cmp x xs) = insert x (set xs)"
  using mset_insertJS[of cmp x xs] by (metis set_mset_add_mset_insert set_mset_mset)

lemma positive_newestFirst:
  "dateTime rt (date a) = Some ta \<Longrightarrow> dateTime rt (date b) = Some tb \<Longrightarrow>
   positive (newestFirst rt a b) \<longleftrightarrow> ta < tb"
  by (simp add: positive_def newestFirst_def)

lemma notOlder_valid:
  "dateTime rt (date a) = Some ta \<Longrightarrow> dateTime rt (date b) = Some tb \<Longrightarrow>
   notOlder rt a b \<longleftrightarrow> tb \<le> ta"
  by (simp add: notOlder_def)

lemma notOlder_trans:
  "dateTime rt (date b) \<noteq> None \<Longrightarrow> notOlder rt a b \<Longrightarrow> notOlder rt b c \<Longrightarrow> notOlder rt a c"
  by (auto simp: notOlder_def split: option.splits)

lemma sorted_insertJS:
  assumes "validDates rt (x # ys)" "sortedNewestFirst rt ys"
  shows "sortedNewestFirst rt (insertJS (newestFirst rt) x ys)"
  using assms
proof (induction ys)
  case Nil
  then show ?case by (simp add: sortedNewestFirst_def)
next
  case (Cons y ys)
  from Cons.prems obtain tx ty where t: "dateTime rt (date x) = Some tx" "dateTime rt (date y) = Some ty"
    by (auto simp: validDates_def)
  show ?case
  proof (cases "positive (newestFirst rt x y)")
    case True
    then have xy: "notOlder rt y x" using t by (simp add: positive_newestFirst notOlder_valid)
    have ih: "sortedNewestFirst rt (insertJS (newestFirst rt) x ys)"
      using Cons by (simp add: validDates_def sortedNewestFirst_def)
    have "\<forall>z\<in>set (insertJS (newestFirst rt) x ys). notOlder rt y z"
      using Cons.prems(2) xy by (auto simp: set_insertJS sortedNewestFirst_def)
    with ih True show ?thesis by (simp add: sortedNewestFirst_def)
  next
    case False
    then have xy: "notOlder rt x y" using t by (simp add: positive_newestFirst notOlder_valid)
    have "\<forall>z\<in>set ys. notOlder rt x z"
      using Cons.prems(2) xy t(2) by (auto simp: sortedNewestFirst_def intro: notOlder_trans[of rt y x])
    with Cons.prems(2) xy False show ?thesis by (simp add: sortedNewestFirst_def)
  qed
qed

lemma sorted_sortJS:
  "validDates rt xs \<Longrightarrow> sortedNewestFirst rt (sortJS (newestFirst rt) xs)"
proof (induction xs)
  case Nil
  then show ?case by (simp add: sortJS_def sortedNewestFirst_def)
next
  case (Cons x xs)
  have v: "validDates rt (x # sortJS (newestFirst rt) xs)"
    using Cons.prems by (simp add: validDates_def list_all_iff set_sortJS)
  have "sortedNewestFirst rt (sortJS (newestFirst rt) xs)"
    using Cons by (simp add: validDates_def)
  from sorted_insertJS[OF v this] show ?case by (simp add: sortJS_def)
qed

lemma findIndex_Some:
  "findIndex P xs = Some i \<Longrightarrow> i < length xs \<and> P (xs ! i) \<and> (\<forall>j<i. \<not> P (xs ! j)) \<and> List.find P xs = Some (xs ! i)"
proof (induction xs arbitrary: i)
  case Nil
  then show ?case by simp
next
  case (Cons x xs)
  show ?case
  proof (cases "P x")
    case True
    with Cons.prems show ?thesis by simp
  next
    case False
    with Cons.prems obtain k where k: "findIndex P xs = Some k" "i = Suc k" by auto
    from Cons.IH[OF k(1)] False k(2) show ?thesis
      by (auto simp: nth_Cons split: nat.splits)
  qed
qed

lemma findIndex_None: "findIndex P xs = None \<longleftrightarrow> List.find P xs = None"
  by (induction xs) auto

lemma mset_list_update:
  "i < length xs \<Longrightarrow> mset (xs[i := v]) = mset xs - {#xs ! i#} + {#v#}"
  by (simp add: mset_update)

text \<open>
  Claim C4, as amended. \<open>saveObservation\<close> writes the whole result back as the new content
  of the slot. When the listed store has an observation with the date of \<open>r\<close>, the first
  such observation is replaced by \<open>r\<close> carrying the stored identifier; otherwise \<open>r\<close> is
  added as it is. The result is sorted by date, newest first, when the engine reads every
  date involved; with a date it cannot read the comparator yields \<open>NaN\<close> and the claim's
  "sorted in both cases" fails.
\<close>

theorem saveObservation_upsert:
  assumes "saveObservation rt r st = (result, st')"
  shows "st' = Saved result \<and>
     mset result =
       (case List.find (\<lambda>x. date x = date r) (getObservations rt st) of
          Some x0 \<Rightarrow> mset (getObservations rt st) - {#x0#} + {#r\<lparr>idStr := idStr x0\<rparr>#}
        | None \<Rightarrow> mset (getObservations rt st) + {#r#}) \<and>
     (validDates rt (r # getObservations rt st) \<longrightarrow> sortedNewestFirst rt result)"
proof -
  let ?cur = "getObservations rt st"
  let ?P = "\<lambda>x. date x = date r"
  define updated where "updated =
    (case findIndex ?P ?cur of
       Some i \<Rightarrow> ?cur[i := r\<lparr>idStr := idStr (?cur ! i)\<rparr>]
     | None \<Rightarrow> r # ?cur)"
  have res: "result = sortJS (newestFirst rt) updated" and st': "st' = Saved result"
    using assms by (auto simp: saveObservation_def Let_def updated_def)
  have m: "mset updated =
       (case List.find ?P ?cur of
          Some x0 \<Rightarrow> mset ?cur - {#x0#} + {#r\<lparr>idStr := idStr x0\<rparr>#}
        | None \<Rightarrow> mset ?cur + {#r#})"
  proof (cases "findIndex ?P ?cur")
    case None
    then show ?thesis by (simp add: updated_def findIndex_None[THEN iffD1])
  next
    case (Some i)
    from findIndex_Some[OF Some] show ?thesis
      by (simp add: updated_def Some mset_list_update)
  qed
  have v: "validDates rt updated" if "validDates rt (r # ?cur)"
  proof (cases "findIndex ?P ?cur")
    case None
    with that show ?thesis by (simp add: updated_def)
  next
    case (Some i)
    from findIndex_Some[OF Some] have i: "i < length ?cur" "date (?cur ! i) = date r" by auto
    have "set (?cur[i := r\<lparr>idStr := idStr (?cur ! i)\<rparr>]) \<subseteq> insert (r\<lparr>idStr := idStr (?cur ! i)\<rparr>) (set ?cur)"
      by (rule set_update_subset_insert)
    with that show ?thesis
      by (auto simp: updated_def Some validDates_def list_all_iff)
  qed
  show ?thesis
    using st' m v by (auto simp: res mset_sortJS sorted_sortJS)
qed

lemma upsert_example:
  "saveObservation refRuntime obsNew (Saved [obsB, obsA]) =
     ([obsNew\<lparr>idStr := ''a1''\<rparr>, obsB], Saved [obsNew\<lparr>idStr := ''a1''\<rparr>, obsB])"
  by code_simp

lemma upsert_example_valid:
  "validDates refRuntime (obsNew # getObservations refRuntime (Saved [obsB, obsA]))"
  by code_simp

theorem saveObservation_upsert_witness:
  "saveObservation refRuntime obsNew (Saved [obsB, obsA]) =
     ([obsNew\<lparr>idStr := ''a1''\<rparr>, obsB], Saved [obsNew\<lparr>idStr := ''a1''\<rparr>, obsB]) \<and>
   sortedNewestFirst refRuntime [obsNew\<lparr>idStr := ''a1''\<rparr>, obsB]"
  using saveObservation_upsert[OF upsert_example] upsert_example upsert_example_valid
  by blast

text \<open>
  The claim C4 as stated fails: after an import that accepts the day-first text
  \<open>45/13/2024\<close>, an upsert of a record of 2021 leaves it in front of a record of 2023.
  Every comparison with the unreadable date is 0, so neighbours are never out of order
  and a stable sort that looks at neighbours (the insertion of the model, the run
  detection of V8) changes nothing.
\<close>

theorem saveObservation_upsert_counterexample:
  "\<not> sortedNewestFirst refRuntime
       (fst (saveObservation refRuntime obsOld (snd (importFromCSV refRuntime csvImpossibleDate Missing))))"
  by code_simp

subsection \<open>One observation per date\<close>

text \<open>Upsert and delete keep the dates of the slot pairwise different.\<close>

lemma distinct_dates_sortJS: "distinct (map date (sortJS cmp xs)) \<longleftrightarrow> distinct (map date xs)"
proof -
  have "mset (map date (sortJS cmp xs)) = mset (map date xs)"
    by (simp add: mset_sortJS)
  then show ?thesis by (rule mset_eq_imp_distinct_iff)
qed

lemma getObservations_unique: "uniqueDates st \<Longrightarrow> distinct (map date (getObservations rt st))"
  by (cases st) (simp_all add: uniqueDates_def getObservations_def distinct_dates_sortJS)

lemma find_None_dates: "List.find (\<lambda>x. date x = d) xs = None \<Longrightarrow> d \<notin> set (map date xs)"
  by (auto simp: find_None_iff)

lemma saveObservation_uniqueDates:
  assumes "uniqueDates st"
  shows "uniqueDates (snd (saveObservation rt r st))"
proof -
  let ?cur = "getObservations rt st"
  let ?P = "\<lambda>x. date x = date r"
  have d: "distinct (map date ?cur)" using assms by (rule getObservations_unique)
  show ?thesis
  proof (cases "findIndex ?P ?cur")
    case None
    then have "date r \<notin> set (map date ?cur)"
      by (intro find_None_dates) (simp add: findIndex_None)
    with d None show ?thesis
      by (simp add: saveObservation_def Let_def uniqueDates_def distinct_dates_sortJS)
  next
    case (Some i)
    from findIndex_Some[OF Some] have i: "i < length ?cur" "date (?cur ! i) = date r" by auto
    have "map date (?cur[i := r\<lparr>idStr := idStr (?cur ! i)\<rparr>]) = (map date ?cur)[i := date r]"
      by (simp add: map_update)
    also have "\<dots> = map date ?cur"
      using i by (metis list_update_id nth_map)
    finally show ?thesis
      using d Some by (simp add: saveObservation_def Let_def uniqueDates_def distinct_dates_sortJS)
  qed
qed

lemma deleteObservation_uniqueDates:
  assumes "uniqueDates st"
  shows "uniqueDates (snd (deleteObservation rt i st))"
  using getObservations_unique[OF assms, of rt]
  by (simp add: deleteObservation_def Let_def uniqueDates_def distinct_map_filter)

text \<open>
  Claim C3 at the input where the code departs from it: a bulk import of two rows with
  the same date persists both, so the slot holds two observations of one date.
  \<open>saveObservation\<close> looks for the date before it writes; \<open>importFromCSV\<close> does not.
\<close>

theorem importFromCSV_same_date_twice:
  "map date (fst (importFromCSV refRuntime csvSameDate Missing)) = [''2023-10-01'', ''2023-10-01''] \<and>
   snd (importFromCSV refRuntime csvSameDate Missing) = Saved (fst (importFromCSV refRuntime csvSameDate Missing)) \<and>
   \<not> uniqueDates (snd (importFromCSV refRuntime csvSameDate Missing))"
  by code_simp

section \<open>Properties of the Tabular Record Parser\<close>

lemma parseRow_accept_indep: "parseRow rt d k raw = None \<longleftrightarrow> parseRow rt d 0 raw = None"
  by (simp add: parseRow_def Let_def split: option.splits)

lemma importLoop_rejecting:
  "\<forall>l\<in>set ls. \<not> rowAccepted rt d l \<Longrightarrow> importLoop rt d ls acc = acc"
proof (induction ls arbitrary: acc)
  case Nil
  then show ?case by simp
next
  case (Cons l ls)
  then have "parseRow rt d (length acc) l = None"
    using parseRow_accept_indep[of rt d "length acc" l] by (simp add: rowAccepted_def)
  with Cons show ?case by simp
qed

text \<open>
  Claim C10: when the parser accepts no line of the input, \<open>importFromCSV\<close> returns the
  empty list and the slot is left as it was.
\<close>

theorem importFromCSV_no_rows:
  assumes "\<forall>l \<in> set (splitLines (trim input)).
             \<not> rowAccepted rt (detectDelimiter (splitLines (trim input))) l"
  shows "importFromCSV rt input st = ([], st)"
  using importLoop_rejecting[OF assms, of "[]"] by (simp add: importFromCSV_def Let_def)

lemma header_rejected:
  "\<forall>l \<in> set (splitLines (trim ''Date,Figs,Bats'')).
      \<not> rowAccepted refRuntime (detectDelimiter (splitLines (trim ''Date,Figs,Bats''))) l"
  by code_simp

theorem importFromCSV_no_rows_witness:
  "importFromCSV refRuntime ''Date,Figs,Bats'' (Saved [obsA]) = ([], Saved [obsA])"
  using importFromCSV_no_rows[OF header_rejected] .

text \<open>
  The loop accepts a line exactly when the trimmed line meets the condition of the
  specification, and the record it pushes holds the rounded values.
\<close>

lemma rowAccepted_iff: "rowAccepted rt d raw \<longleftrightarrow> specAccepts rt d (trim raw)"
proof (cases "trim raw = []")
  case True
  then show ?thesis by (simp add: rowAccepted_def specAccepts_def parseRow_def)
next
  case False
  then show ?thesis
    by (simp add: rowAccepted_def specAccepts_def parseRow_def Let_def del: nth_map
        split: option.splits)
qed

lemma mathRound_nearest:
  assumes "mathRound (Finite q) = Finite r"
  shows "r \<in> \<int> \<and> \<bar>r - q\<bar> \<le> 1 / 2"
proof -
  from assms have r: "r = of_int \<lfloor>q + 1 / 2\<rfloor>" by (simp add: mathRound_def)
  have "of_int \<lfloor>q + 1 / 2\<rfloor> \<le> q + 1 / 2" "q + 1 / 2 < of_int \<lfloor>q + 1 / 2\<rfloor> + 1"
    by linarith+
  then have "r - q \<le> 1 / 2" "- (1 / 2) \<le> r - q" unfolding r by linarith+
  then have "\<bar>r - q\<bar> \<le> 1 / 2" by linarith
  moreover have "r \<in> \<int>" unfolding r by simp
  ultimately show ?thesis by simp
qed

lemma parseRow_Some:
  assumes "parseRow rt d k raw = Some x"
  shows "\<exists>parts fd. parts = map trim (splitOn d (trim raw)) \<and> 3 \<le> length parts \<and>
     parseDate rt (parts ! 0) = Some fd \<and> idStr x = randomId rt k \<and> date x = fd \<and>
     figs x = mathRound (parseValue rt (parts ! 1)) \<and> bats x = mathRound (parseValue rt (parts ! 2)) \<and>
     leaves x = (if 4 \<le> length parts \<and> \<not> isNaN (parseValue rt (parts ! 3))
                 then mathRound (parseValue rt (parts ! 3)) else Finite 0)"
proof -
  define parts where "parts = map trim (splitOn d (trim raw))"
  from assms have l: "3 \<le> length parts"
    unfolding parseRow_def Let_def parts_def[symmetric] by (simp split: if_splits)
  from assms l obtain fd where fd: "parseDate rt (parts ! 0) = Some fd"
    unfolding parseRow_def Let_def parts_def[symmetric] by (simp split: if_splits option.splits)
  from assms l fd have x: "x = \<lparr>idStr = randomId rt k, date = fd,
       bats = mathRound (parseValue rt (parts ! 2)), figs = mathRound (parseValue rt (parts ! 1)),
       leaves = (if isNaN (if 4 \<le> length parts then parseValue rt (parts ! 3) else Finite 0)
                 then Finite 0
                 else mathRound (if 4 \<le> length parts then parseValue rt (parts ! 3) else Finite 0)),
       rain = None, tempMax = None\<rparr>"
    unfolding parseRow_def Let_def parts_def[symmetric] by (simp split: if_splits)
  have "\<lfloor>(0::rat) + 1 / 2\<rfloor> = 0" by linarith
  then have z: "mathRound (Finite 0) = Finite 0" by (simp add: mathRound_def)
  have "leaves x = (if 4 \<le> length parts \<and> \<not> isNaN (parseValue rt (parts ! 3))
                 then mathRound (parseValue rt (parts ! 3)) else Finite 0)"
    unfolding x by (simp add: z isNaN_def)
  with l fd x show ?thesis unfolding parts_def[symmetric] by simp
qed

text \<open>
  Claim C1 at the input where the code departs from it. In tab-separated text the row
  \<open>2023-10-01<TAB>5<TAB>\<close> has three fields, a date the normalizer accepts, figs 5 and an
  empty bats field, which coerces to 0: the claim accepts it. \<open>importFromCSV\<close> trims the
  line before it splits it, the trim removes the trailing tab, two fields remain and the
  row is dropped. The same rows separated by commas are both accepted.
\<close>

theorem importFromCSV_trailing_tab:
  "specAccepts refRuntime (CHR 0x09) (''2023-10-01'' @ tab @ ''5'' @ tab) \<and>
   map date (fst (importFromCSV refRuntime tsvEmptyBats Missing)) = [''2023-10-02''] \<and>
   map date (fst (importFromCSV refRuntime csvEmptyBats Missing)) = [''2023-10-02'', ''2023-10-01'']"
  by code_simp

section \<open>Properties of the Sheet Import Adapter\<close>

text \<open>No identifier can be extracted exactly when no \<open>/d/\<close> is followed by a character of the class.\<close>

lemma isPrefixOf_iff: "isPrefixOf p s \<longleftrightarrow> (\<exists>t. s = p @ t)"
  by (induction p s rule: isPrefixOf.induct) auto

lemma includesStr_iff: "includesStr s p \<longleftrightarrow> (\<exists>a b. s = a @ p @ b)"
proof (induction s)
  case Nil
  then show ?case by (auto simp: isPrefixOf_iff)
next
  case (Cons c s)
  show ?case
  proof
    assume "includesStr (c # s) p"
    then consider "isPrefixOf p (c # s)" | "includesStr s p" by auto
    then show "\<exists>a b. c # s = a @ p @ b"
    proof cases
      case 1
      then obtain t where "c # s = p @ t" by (auto simp: isPrefixOf_iff)
      then have "c # s = [] @ p @ t" by simp
      then show ?thesis by blast
    next
      case 2
      then obtain a b where "s = a @ p @ b" using Cons.IH by blast
      then have "c # s = (c # a) @ p @ b" by simp
      then show ?thesis by blast
    qed
  next
    assume "\<exists>a b. c # s = a @ p @ b"
    then obtain a b where ab: "c # s = a @ p @ b" by blast
    show "includesStr (c # s) p"
    proof (cases a)
      case Nil
      with ab have "isPrefixOf p (c # s)" unfolding isPrefixOf_iff by auto
      then show ?thesis by simp
    next
      case (Cons a0 a')
      with ab have "s = a' @ p @ b" by simp
      then show ?thesis using Cons.IH by auto
    qed
  qed
qed

lemma findDocId_None_iff:
  "findDocId url = None \<longleftrightarrow> \<not> (\<exists>a c b. url = a @ ''/d/'' @ c # b \<and> isIdChar c)"
proof (induction url)
  case Nil
  then show ?case by simp
next
  case (Cons x url)
  have here: "(isPrefixOf ''/d/'' (x # url) \<and> takeWhile isIdChar (drop 3 (x # url)) \<noteq> []) \<longleftrightarrow>
      (\<exists>c b. x # url = ''/d/'' @ c # b \<and> isIdChar c)" (is "?L \<longleftrightarrow> ?R")
  proof
    assume ?L
    then obtain t where t: "x # url = ''/d/'' @ t" "takeWhile isIdChar t \<noteq> []"
      by (auto simp: isPrefixOf_iff)
    then obtain c b where "t = c # b" "isIdChar c" by (cases t) (auto split: if_splits)
    with t show ?R by blast
  next
    assume ?R
    then show ?L by (auto simp: isPrefixOf_iff)
  qed
  have split: "(\<exists>a c b. x # url = a @ ''/d/'' @ c # b \<and> isIdChar c) \<longleftrightarrow>
     (\<exists>c b. x # url = ''/d/'' @ c # b \<and> isIdChar c) \<or> (\<exists>a c b. url = a @ ''/d/'' @ c # b \<and> isIdChar c)"
    (is "?A \<longleftrightarrow> ?B \<or> ?C")
  proof
    assume ?A
    then obtain a c b where ab: "x # url = a @ ''/d/'' @ c # b" "isIdChar c" by blast
    show "?B \<or> ?C"
    proof (cases a)
      case Nil
      with ab show ?thesis by auto
    next
      case (Cons a0 a')
      with ab have "url = a' @ ''/d/'' @ c # b" by simp
      with ab(2) show ?thesis by blast
    qed
  next
    assume "?B \<or> ?C"
    then show ?A
    proof
      assume ?B
      then obtain c b where "x # url = [] @ ''/d/'' @ c # b" "isIdChar c" by auto
      then show ?A by blast
    next
      assume ?C
      then obtain a c b where "url = a @ ''/d/'' @ c # b" "isIdChar c" by blast
      then have "x # url = (x # a) @ ''/d/'' @ c # b" "isIdChar c" by simp_all
      then show ?A by blast
    qed
  qed
  show ?case
    unfolding split using here Cons.IH by (auto simp del: isPrefixOf.simps)
qed

text \<open>
  Claim C8, as amended. A URL that contains \<open>output=csv\<close> is fetched as it is, whether or
  not it names a document. For every other URL from which no document identifier can be
  extracted, the adapter fails with the invalid-URL error, requests nothing and leaves
  the slot alone.
\<close>

theorem fetchGoogleSheet_invalid_url:
  assumes "findDocId url = None" and "\<not> includesStr url ''output=csv''"
  shows "fetchGoogleSheet rt fetch url st = ([], Inl invalidUrlError, st)"
  using assms by (simp add: fetchGoogleSheet_def exportUrl_def)

lemma no_id_example:
  "findDocId ''https://example.com/sheet'' = None" "\<not> includesStr ''https://example.com/sheet'' ''output=csv''"
  by code_simp+

theorem fetchGoogleSheet_invalid_url_witness:
  "fetchGoogleSheet refRuntime fetchCsv ''https://example.com/sheet'' Missing = ([], Inl invalidUrlError, Missing)"
  using fetchGoogleSheet_invalid_url[OF no_id_example] .

text \<open>
  The claim C8 as stated fails: a URL with no document identifier that is requested, and
  whose rows are imported.
\<close>

theorem fetchGoogleSheet_invalid_url_counterexample:
  "findDocId ''https://example.com/pub?output=csv'' = None \<and>
   fetchGoogleSheet refRuntime fetchCsv ''https://example.com/pub?output=csv'' Missing =
     ([''https://example.com/pub?output=csv''], Inr [obsA\<lparr>idStr := ''id0''\<rparr>], Saved [obsA\<lparr>idStr := ''id0''\<rparr>])"
  by code_simp

section \<open>Properties of the Weather Range Fetcher\<close>

lemma dayMs_pos: "0 < dayMs"
  by (simp add: dayMs_def)

lemma midnight_after: "c < dayMs * s \<longleftrightarrow> c div dayMs < s"
proof -
  have "c < 86400000 * s \<longleftrightarrow> c div 86400000 < s" by linarith
  then show ?thesis by (simp add: dayMs_def)
qed

lemma midnight_before: "dayMs * e \<le> c \<longleftrightarrow> e \<le> c div dayMs"
  using midnight_after[of c e] by auto

lemma requests_recent:
  assumes "dateTime rt startDate = Some (dayMs * s)" "(now - 7 * dayMs) div dayMs < s"
  shows "tryFetchWeather rt fetch now startDate endDate =
     ([forecastUrl startDate endDate], singleLeg fetch (forecastUrl startDate endDate))"
  using assms by (simp add: tryFetchWeather_def Let_def midnight_after)

lemma requests_historical:
  assumes "dateTime rt startDate = Some (dayMs * s)" "dateTime rt endDate = Some (dayMs * e)"
    "\<not> (now - 7 * dayMs) div dayMs < s" "e \<le> (now - 7 * dayMs) div dayMs"
  shows "tryFetchWeather rt fetch now startDate endDate =
     ([archiveUrl startDate endDate], singleLeg fetch (archiveUrl startDate endDate))"
  using assms by (simp add: tryFetchWeather_def Let_def midnight_after midnight_before)

lemma requests_straddling:
  assumes "dateTime rt startDate = Some (dayMs * s)" "dateTime rt endDate = Some (dayMs * e)"
    "dateTime rt (toISODate rt (addLocalDay rt (now - 7 * dayMs))) = Some (dayMs * ((now - 7 * dayMs) div dayMs + 1))"
    "\<not> (now - 7 * dayMs) div dayMs < s" "\<not> e \<le> (now - 7 * dayMs) div dayMs"
  shows "fetchWeatherHistory rt fetch now startDate endDate =
     ([forecastUrl (toISODate rt (addLocalDay rt (now - 7 * dayMs))) endDate,
       archiveUrl startDate (toISODate rt (now - 7 * dayMs))],
      Inr (combineLegs (fetch (archiveUrl startDate (toISODate rt (now - 7 * dayMs))))
                  (fetch (forecastUrl (toISODate rt (addLocalDay rt (now - 7 * dayMs))) endDate))))"
proof -
  have w: "(now - 7 * dayMs) div dayMs + 1 \<le> e" using assms(5) by simp
  then have w': "dayMs * ((now - 7 * dayMs) div dayMs + 1) \<le> dayMs * e"
    using dayMs_pos by simp
  show ?thesis
    using assms(1,2,4,5) w'
    by (simp add: fetchWeatherHistory_def tryFetchWeather_def Let_def midnight_after midnight_before
        assms(3) combineLegs_def split: fetched.splits option.splits)
qed

lemma fetchWeatherHistory_Inr: "\<exists>r. snd (fetchWeatherHistory rt fetch now startDate endDate) = Inr r"
  by (simp add: fetchWeatherHistory_def split: prod.splits option.splits)

lemma fst_fetchWeatherHistory:
  "fst (fetchWeatherHistory rt fetch now startDate endDate) = fst (tryFetchWeather rt fetch now startDate endDate)"
  by (simp add: fetchWeatherHistory_def split: prod.splits option.splits)

lemma servesRange_disjoint:
  assumes "servesRange rt lo1 hi1 xs" "servesRange rt lo2 hi2 ys" "hi1 < lo2"
  shows "distinct (map date_w (xs @ ys))"
proof -
  have "date_w x \<noteq> date_w y" if "x \<in> set xs" "y \<in> set ys" for x y
  proof
    assume eq: "date_w x = date_w y"
    from assms(1) that(1) obtain t where t: "dateTime rt (date_w x) = Some t" "t \<le> hi1"
      by (auto simp: servesRange_def list_all_iff split: option.splits)
    from assms(2) that(2) obtain u where u: "dateTime rt (date_w y) = Some u" "lo2 \<le> u"
      by (auto simp: servesRange_def list_all_iff split: option.splits)
    from t u eq assms(3) show False by simp
  qed
  then have "set (map date_w xs) \<inter> set (map date_w ys) = {}" by auto
  with assms(1,2) show ?thesis by (simp add: servesRange_def)
qed

text \<open>
  The requests by range. Let the start and end dates be dates the engine reads as the UTC
  midnights of the days \<open>s \<le> e\<close>, let \<open>cutoff\<close> be seven days before \<open>now\<close> and
  \<open>cutoff div dayMs\<close> its day, and suppose that the engine's step to the next local day
  lands on the next UTC date. Then a range after the cutoff day requests only the
  forecast for the whole range, a range up to the cutoff day only the archive, and a
  straddling range the archive up to the cutoff date and the forecast from the next date
  on. In the straddling case the archive results come first, and when each endpoint
  answers with days of the range it was asked for, each once, no date occurs twice.
\<close>

lemma requests_by_range:
  assumes "dateTime rt startDate = Some (dayMs * s)" and "dateTime rt endDate = Some (dayMs * e)"
    and "s \<le> e" and "cutoff = now - 7 * dayMs"
    and "dateTime rt (toISODate rt (addLocalDay rt cutoff)) = Some (dayMs * (cutoff div dayMs + 1))"
  shows "fst (fetchWeatherHistory rt fetch now startDate endDate) =
           (if cutoff div dayMs < s then [forecastUrl startDate endDate]
            else if e \<le> cutoff div dayMs then [archiveUrl startDate endDate]
            else [forecastUrl (toISODate rt (addLocalDay rt cutoff)) endDate,
                  archiveUrl startDate (toISODate rt cutoff)]) \<and>
         (s \<le> cutoff div dayMs \<and> cutoff div dayMs < e \<and>
          fetch (archiveUrl startDate (toISODate rt cutoff)) = Resolved ra \<and> legResults ra = Some xs \<and>
          fetch (forecastUrl (toISODate rt (addLocalDay rt cutoff)) endDate) = Resolved rf \<and>
          legResults rf = Some ys \<longrightarrow>
            snd (fetchWeatherHistory rt fetch now startDate endDate) = Inr (xs @ ys) \<and>
            (servesRange rt (dayMs * s) (dayMs * (cutoff div dayMs)) xs \<and>
             servesRange rt (dayMs * (cutoff div dayMs + 1)) (dayMs * e) ys \<longrightarrow>
               distinct (map date_w (xs @ ys))))"
proof -
  let ?c = "cutoff div dayMs"
  have req: "fst (fetchWeatherHistory rt fetch now startDate endDate) =
           (if ?c < s then [forecastUrl startDate endDate]
            else if e \<le> ?c then [archiveUrl startDate endDate]
            else [forecastUrl (toISODate rt (addLocalDay rt cutoff)) endDate,
                  archiveUrl startDate (toISODate rt cutoff)])"
  proof (cases "?c < s")
    case True
    then show ?thesis
      using requests_recent[OF assms(1), of now fetch endDate] assms(4)
      by (simp add: fst_fetchWeatherHistory)
  next
    case False
    show ?thesis
    proof (cases "e \<le> ?c")
      case True
      then show ?thesis
        using requests_historical[OF assms(1,2), of now fetch] False assms(4)
        by (simp add: fst_fetchWeatherHistory)
    next
      case e: False
      show ?thesis
        using requests_straddling[OF assms(1,2), of now fetch] assms(4,5) False e by simp
    qed
  qed
  have res: "snd (fetchWeatherHistory rt fetch now startDate endDate) = Inr (xs @ ys)"
    if "s \<le> ?c" "?c < e"
      "fetch (archiveUrl startDate (toISODate rt cutoff)) = Resolved ra" "legResults ra = Some xs"
      "fetch (forecastUrl (toISODate rt (addLocalDay rt cutoff)) endDate) = Resolved rf"
      "legResults rf = Some ys"
    using requests_straddling[OF assms(1,2), of now fetch] assms(4,5) that
    by (simp add: combineLegs_def)
  have dis: "distinct (map date_w (xs @ ys))"
    if "servesRange rt (dayMs * s) (dayMs * ?c) xs" "servesRange rt (dayMs * (?c + 1)) (dayMs * e) ys"
  proof -
    have "dayMs * ?c < dayMs * (?c + 1)" using dayMs_pos by simp
    with that show ?thesis by (rule servesRange_disjoint)
  qed
  show ?thesis using req res dis by blast
qed

lemma cutoff_date: "toISODate refRuntime (now0 - 7 * dayMs) = ''2023-11-01''"
  by code_simp

lemma next_date: "toISODate refRuntime (addLocalDay refRuntime (now0 - 7 * dayMs)) = ''2023-11-02''"
  by code_simp

lemma cutoff_day: "(now0 - 7 * dayMs) div dayMs = 19662"
  by code_simp

lemma example_times:
  "dateTime refRuntime ''2023-10-20'' = Some (dayMs * 19650)"
  "dateTime refRuntime ''2023-11-05'' = Some (dayMs * 19666)"
  "dateTime refRuntime ''2023-11-02'' = Some (dayMs * 19663)"
  "dateTime refRuntime ''2023-11-06'' = Some (dayMs * 19667)"
  "dateTime refRuntime ''2023-10-01'' = Some (dayMs * 19631)"
  by code_simp+

lemma next_time:
  "dateTime refRuntime (toISODate refRuntime (addLocalDay refRuntime (now0 - 7 * dayMs))) =
     Some (dayMs * ((now0 - 7 * dayMs) div dayMs + 1))"
  by (simp add: next_date cutoff_day example_times)

lemma example_legs:
  "legResults archiveOk = Some archiveDays" "legResults forecastOk = Some forecastDays"
  "legResults serverError = Some []"
  by code_simp+

lemma urls_differ: "forecastUrl a b \<noteq> archiveUrl c d"
  by (simp add: forecastUrl_def archiveUrl_def)

lemma example_ranges:
  "servesRange refRuntime (dayMs * 19650) (dayMs * 19662) archiveDays"
  "servesRange refRuntime (dayMs * (19662 + 1)) (dayMs * 19666) forecastDays"
  by code_simp+

lemma requests_by_range_example:
  "fetchWeatherHistory refRuntime fetchBoth now0 ''2023-10-20'' ''2023-11-05'' =
     ([forecastUrl ''2023-11-02'' ''2023-11-05'', archiveUrl ''2023-10-20'' ''2023-11-01''],
      Inr (archiveDays @ forecastDays)) \<and>
   distinct (map date_w (archiveDays @ forecastDays)) \<and>
   fst (fetchWeatherHistory refRuntime fetchBoth now0 ''2023-11-05'' ''2023-11-06'') =
     [forecastUrl ''2023-11-05'' ''2023-11-06''] \<and>
   fst (fetchWeatherHistory refRuntime fetchBoth now0 ''2023-10-01'' ''2023-10-20'') =
     [archiveUrl ''2023-10-01'' ''2023-10-20'']"
proof -
  have c: "now0 - 7 * dayMs = now0 - 7 * dayMs" by simp
  have a: "fetchBoth (archiveUrl ''2023-10-20'' (toISODate refRuntime (now0 - 7 * dayMs))) = Resolved archiveOk"
    by (simp add: cutoff_date fetchBoth_def)
  have f: "fetchBoth (forecastUrl (toISODate refRuntime (addLocalDay refRuntime (now0 - 7 * dayMs))) ''2023-11-05'') = Resolved forecastOk"
    by (simp add: next_date fetchBoth_def urls_differ)
  have 1: "fst (fetchWeatherHistory refRuntime fetchBoth now0 ''2023-10-20'' ''2023-11-05'') =
      [forecastUrl ''2023-11-02'' ''2023-11-05'', archiveUrl ''2023-10-20'' ''2023-11-01'']"
    and 2: "snd (fetchWeatherHistory refRuntime fetchBoth now0 ''2023-10-20'' ''2023-11-05'') = Inr (archiveDays @ forecastDays)"
    and 3: "distinct (map date_w (archiveDays @ forecastDays))"
    using requests_by_range[OF example_times(1) example_times(2) _ c next_time,
        of fetchBoth archiveOk archiveDays forecastOk forecastDays]
      a f example_legs example_ranges
    by (simp_all add: cutoff_day cutoff_date next_date)
  have 4: "fst (fetchWeatherHistory refRuntime fetchBoth now0 ''2023-11-05'' ''2023-11-06'') =
     [forecastUrl ''2023-11-05'' ''2023-11-06'']"
    using requests_by_range[OF example_times(2) example_times(4) _ c next_time, of fetchBoth]
    by (simp add: cutoff_day)
  have 5: "fst (fetchWeatherHistory refRuntime fetchBoth now0 ''2023-10-01'' ''2023-10-20'') =
     [archiveUrl ''2023-10-01'' ''2023-10-20'']"
    using requests_by_range[OF example_times(5) example_times(1) _ c next_time, of fetchBoth]
    by (simp add: cutoff_day)
  from 1 2 3 4 5 show ?thesis by (simp add: prod_eq_iff)
qed

lemma requests_overlapping:
  assumes "dateTime rt startDate = Some (dayMs * s)" "dateTime rt endDate = Some (dayMs * e)"
    "dateTime rt (toISODate rt (addLocalDay rt (now - 7 * dayMs))) = Some n" "n \<le> dayMs * e"
    "\<not> (now - 7 * dayMs) div dayMs < s" "\<not> e \<le> (now - 7 * dayMs) div dayMs"
  shows "fetchWeatherHistory rt fetch now startDate endDate =
     ([forecastUrl (toISODate rt (addLocalDay rt (now - 7 * dayMs))) endDate,
       archiveUrl startDate (toISODate rt (now - 7 * dayMs))],
      Inr (combineLegs (fetch (archiveUrl startDate (toISODate rt (now - 7 * dayMs))))
                  (fetch (forecastUrl (toISODate rt (addLocalDay rt (now - 7 * dayMs))) endDate))))"
  using assms(1,2,4,5,6)
  by (simp add: fetchWeatherHistory_def tryFetchWeather_def Let_def midnight_after midnight_before
      assms(3) combineLegs_def split: fetched.splits option.splits)

lemma dst_dates:
  "toISODate dstRuntime (nowDst - 7 * dayMs) = ''2024-03-10''"
  "toISODate dstRuntime (addLocalDay dstRuntime (nowDst - 7 * dayMs)) = ''2024-03-10''"
  by code_simp+

lemma dst_cutoff_day: "(nowDst - 7 * dayMs) div dayMs = 19792"
  by code_simp

lemma dst_times:
  "dateTime dstRuntime ''2024-03-08'' = Some (dayMs * 19790)"
  "dateTime dstRuntime ''2024-03-12'' = Some (dayMs * 19794)"
  "dateTime dstRuntime ''2024-03-10'' = Some (dayMs * 19792)"
  by code_simp+

lemma dst_legs:
  "legResults archiveDst = Some archiveDstDays" "legResults forecastDst = Some forecastDstDays"
  by code_simp+

lemma dst_urls:
  "archiveUrl ''2024-03-08'' ''2024-03-10'' =
     ''https://archive-api.open-meteo.com/v1/archive?latitude=-26.66&longitude=152.96&start_date=2024-03-08&end_date=2024-03-10&daily=temperature_2m_max,precipitation_sum&timezone=Australia%2FBrisbane''"
  "forecastUrl ''2024-03-10'' ''2024-03-12'' =
     ''https://api.open-meteo.com/v1/forecast?latitude=-26.66&longitude=152.96&start_date=2024-03-10&end_date=2024-03-12&daily=temperature_2m_max,precipitation_sum&timezone=Australia%2FBrisbane''"
  by (simp_all add: archiveUrl_def forecastUrl_def queryParams_def)

lemma dst_fetch:
  "fetchDst ''https://archive-api.open-meteo.com/v1/archive?latitude=-26.66&longitude=152.96&start_date=2024-03-08&end_date=2024-03-10&daily=temperature_2m_max,precipitation_sum&timezone=Australia%2FBrisbane'' =
     Resolved archiveDst"
  "fetchDst ''https://api.open-meteo.com/v1/forecast?latitude=-26.66&longitude=152.96&start_date=2024-03-10&end_date=2024-03-12&daily=temperature_2m_max,precipitation_sum&timezone=Australia%2FBrisbane'' =
     Resolved forecastDst"
  by (simp_all add: fetchDst_def)

text \<open>
  Claim C5 at an input where the code departs from it. The cutoff date is computed by
  subtracting milliseconds and printed in UTC; the next day is computed with \<open>setDate\<close>,
  which works in local time, and printed in UTC. In a browser whose local day has 23
  hours (the day the clocks go forward), with the cutoff instant in the first hour of the
  UTC day, the step lands on the same UTC date: here the cutoff date is 2024-03-10, the
  archive is asked for 8 to 10 March and the forecast for 10 to 12 March, not 11 to 12
  March, and 10 March occurs twice in the result.
\<close>

theorem fetchWeatherHistory_dst_overlap:
  "toISODate dstRuntime (nowDst - 7 * dayMs) = ''2024-03-10'' \<and>
   fetchWeatherHistory dstRuntime fetchDst nowDst ''2024-03-08'' ''2024-03-12'' =
     ([''https://api.open-meteo.com/v1/forecast?latitude=-26.66&longitude=152.96&start_date=2024-03-10&end_date=2024-03-12&daily=temperature_2m_max,precipitation_sum&timezone=Australia%2FBrisbane'',
       ''https://archive-api.open-meteo.com/v1/archive?latitude=-26.66&longitude=152.96&start_date=2024-03-08&end_date=2024-03-10&daily=temperature_2m_max,precipitation_sum&timezone=Australia%2FBrisbane''],
      Inr (archiveDstDays @ forecastDstDays)) \<and>
   map date_w (archiveDstDays @ forecastDstDays) =
     [''2024-03-08'', ''2024-03-09'', ''2024-03-10'', ''2024-03-10'', ''2024-03-11'', ''2024-03-12''] \<and>
   \<not> distinct (map date_w (archiveDstDays @ forecastDstDays))"
proof -
  have n: "dayMs * 19792 \<le> dayMs * 19794" by (simp add: dayMs_def)
  have t: "dateTime dstRuntime (toISODate dstRuntime (addLocalDay dstRuntime (nowDst - 7 * dayMs))) =
      Some (dayMs * 19792)"
    by (simp only: dst_dates dst_times)
  have "fetchWeatherHistory dstRuntime fetchDst nowDst ''2024-03-08'' ''2024-03-12'' =
     ([forecastUrl ''2024-03-10'' ''2024-03-12'', archiveUrl ''2024-03-08'' ''2024-03-10''],
      Inr (combineLegs (fetchDst (archiveUrl ''2024-03-08'' ''2024-03-10''))
                  (fetchDst (forecastUrl ''2024-03-10'' ''2024-03-12''))))"
    using requests_overlapping[OF dst_times(1) dst_times(2) t n, of fetchDst]
    by (simp add: dst_cutoff_day dst_dates)
  then have "fetchWeatherHistory dstRuntime fetchDst nowDst ''2024-03-08'' ''2024-03-12'' =
     ([''https://api.open-meteo.com/v1/forecast?latitude=-26.66&longitude=152.96&start_date=2024-03-10&end_date=2024-03-12&daily=temperature_2m_max,precipitation_sum&timezone=Australia%2FBrisbane'',
       ''https://archive-api.open-meteo.com/v1/archive?latitude=-26.66&longitude=152.96&start_date=2024-03-08&end_date=2024-03-10&daily=temperature_2m_max,precipitation_sum&timezone=Australia%2FBrisbane''],
      Inr (archiveDstDays @ forecastDstDays))"
    by (simp only: dst_urls dst_fetch combineLegs_def dst_legs fetched.case prod.case option.case)
  moreover have "map date_w (archiveDstDays @ forecastDstDays) =
     [''2024-03-08'', ''2024-03-09'', ''2024-03-10'', ''2024-03-10'', ''2024-03-11'', ''2024-03-12'']"
    by (simp add: archiveDstDays_def forecastDstDays_def)
  ultimately show ?thesis by (simp add: dst_dates)
qed

text \<open>
  Claim C6, as amended. The fetcher never returns an error. In the straddling case a
  response with a non-success status contributes nothing and the other leg's results are
  still returned; but the two promises are awaited together inside one \<open>try\<close> block, so a
  transport error of either request (or a body that cannot be read) makes the whole result
  empty, the other leg's results included.
\<close>

theorem fetchWeatherHistory_failures:
  "(\<exists>r. snd (fetchWeatherHistory rt fetch now startDate endDate) = Inr r) \<and>
   (dateTime rt startDate = Some (dayMs * s) \<and> dateTime rt endDate = Some (dayMs * e) \<and>
    cutoff = now - 7 * dayMs \<and>
    dateTime rt (toISODate rt (addLocalDay rt cutoff)) = Some (dayMs * (cutoff div dayMs + 1)) \<and>
    s \<le> cutoff div dayMs \<and> cutoff div dayMs < e \<longrightarrow>
      fetchWeatherHistory rt fetch now startDate endDate =
        ([forecastUrl (toISODate rt (addLocalDay rt cutoff)) endDate,
          archiveUrl startDate (toISODate rt cutoff)],
         Inr (combineLegs (fetch (archiveUrl startDate (toISODate rt cutoff)))
                          (fetch (forecastUrl (toISODate rt (addLocalDay rt cutoff)) endDate)))))"
  using fetchWeatherHistory_Inr[of rt fetch now startDate endDate]
    requests_straddling[of rt startDate s endDate e now fetch]
  by auto

theorem fetchWeatherHistory_failures_witness:
  "fetchWeatherHistory refRuntime fetchArchiveDown now0 ''2023-10-20'' ''2023-11-05'' =
     ([forecastUrl ''2023-11-02'' ''2023-11-05'', archiveUrl ''2023-10-20'' ''2023-11-01''],
      Inr forecastDays)"
proof -
  have a: "fetchArchiveDown (archiveUrl ''2023-10-20'' ''2023-11-01'') = Resolved serverError"
    by (simp add: fetchArchiveDown_def)
  have f: "fetchArchiveDown (forecastUrl ''2023-11-02'' ''2023-11-05'') = Resolved forecastOk"
    by (simp add: fetchArchiveDown_def urls_differ)
  show ?thesis
    using fetchWeatherHistory_failures[of refRuntime fetchArchiveDown now0 "''2023-10-20''" "''2023-11-05''"
        19650 19666 "now0 - 7 * dayMs"]
      example_times next_time
    by (simp add: cutoff_day cutoff_date next_date a f combineLegs_def example_legs)
qed

text \<open>
  The claim C6 as stated fails: the archive leg answers with two days, the forecast request
  fails in transport, and the fetcher returns nothing.
\<close>

theorem fetchWeatherHistory_failures_counterexample:
  "fetchArchiveOnly (archiveUrl ''2023-10-20'' ''2023-11-01'') = Resolved archiveOk \<and>
   legResults archiveOk = Some archiveDays \<and>
   fetchArchiveOnly (forecastUrl ''2023-11-02'' ''2023-11-05'') = Rejected ''Failed to fetch'' \<and>
   fetchWeatherHistory refRuntime fetchArchiveOnly now0 ''2023-10-20'' ''2023-11-05'' =
     ([forecastUrl ''2023-11-02'' ''2023-11-05'', archiveUrl ''2023-10-20'' ''2023-11-01''], Inr [])"
proof -
  have a: "fetchArchiveOnly (archiveUrl ''2023-10-20'' ''2023-11-01'') = Resolved archiveOk"
    by (simp add: fetchArchiveOnly_def)
  have f: "fetchArchiveOnly (forecastUrl ''2023-11-02'' ''2023-11-05'') = Rejected ''Failed to fetch''"
    by (simp add: fetchArchiveOnly_def urls_differ)
  have "fetchWeatherHistory refRuntime fetchArchiveOnly now0 ''2023-10-20'' ''2023-11-05'' =
     ([forecastUrl ''2023-11-02'' ''2023-11-05'', archiveUrl ''2023-10-20'' ''2023-11-01''], Inr [])"
    using requests_straddling[OF example_times(1) example_times(2) next_time, of fetchArchiveOnly]
    by (simp add: cutoff_day cutoff_date next_date a f combineLegs_def)
  with a f example_legs(1) show ?thesis by simp
qed

section \<open>Export after import\<close>

subsection \<open>Decimal writing\<close>

lemma foldl_digits_shift:
  "foldl (\<lambda>n c. 10 * n + digitVal c) a cs = a * 10 ^ length cs + foldl (\<lambda>n c. 10 * n + digitVal c) 0 cs"
proof (induction cs arbitrary: a)
  case Nil
  then show ?case by simp
next
  case (Cons c cs)
  let ?f = "\<lambda>n c. 10 * n + digitVal c"
  have 1: "foldl ?f a (c # cs) = foldl ?f (10 * a + digitVal c) cs" by simp
  have 2: "foldl ?f (10 * a + digitVal c) cs = (10 * a + digitVal c) * 10 ^ length cs + foldl ?f 0 cs"
    by (rule Cons.IH)
  have 3: "foldl ?f 0 (c # cs) = foldl ?f (digitVal c) cs" by simp
  have 4: "foldl ?f (digitVal c) cs = digitVal c * 10 ^ length cs + foldl ?f 0 cs"
    by (rule Cons.IH)
  have "(10 * a + digitVal c) * 10 ^ length cs = a * 10 ^ length (c # cs) + digitVal c * 10 ^ length cs"
    by (simp add: algebra_simps)
  then show ?case unfolding 1 2 3 4 by linarith
qed

lemma digitsVal_Cons: "digitsVal (c # cs) = digitVal c * 10 ^ length cs + digitsVal cs"
  using foldl_digits_shift[of "digitVal c" cs] by (simp add: digitsVal_def)

lemma isDigit_cases:
  "isDigit c \<Longrightarrow> c = CHR ''0'' \<or> c = CHR ''1'' \<or> c = CHR ''2'' \<or> c = CHR ''3'' \<or> c = CHR ''4'' \<or>
     c = CHR ''5'' \<or> c = CHR ''6'' \<or> c = CHR ''7'' \<or> c = CHR ''8'' \<or> c = CHR ''9''"
  by (simp add: isDigit_def)

lemma digitOf_digitVal: "isDigit c \<Longrightarrow> digitOf c = digitVal c"
  by (drule isDigit_cases, elim disjE) (simp_all add: digitOf_def digitVal_def)

lemma decimalValue_digitsVal: "list_all isDigit ds \<Longrightarrow> decimalValue ds = digitsVal ds"
  by (induction ds) (simp_all add: digitsVal_Cons digitOf_digitVal, simp add: digitsVal_def)

lemma digitVal_less: "isDigit c \<Longrightarrow> digitVal c < 10"
  by (drule isDigit_cases, elim disjE) (simp_all add: digitVal_def)

lemma digitChar_digitVal: "isDigit c \<Longrightarrow> digitChar (digitVal c) = c"
  by (drule isDigit_cases, elim disjE) (simp_all add: digitVal_def digitChar_def)

lemma digitVal_pos: "isDigit c \<Longrightarrow> c \<noteq> CHR ''0'' \<Longrightarrow> 0 < digitVal c"
  by (drule isDigit_cases, elim disjE) (simp_all add: digitVal_def)

lemma digitsVal_less: "list_all isDigit ds \<Longrightarrow> digitsVal ds < 10 ^ length ds"
proof (induction ds)
  case Nil
  then show ?case by (simp add: digitsVal_def)
next
  case (Cons c cs)
  then have "digitVal c \<le> 9" "digitsVal cs < 10 ^ length cs"
    using digitVal_less[of c] by simp_all
  then have "digitVal c * 10 ^ length cs + digitsVal cs < 9 * 10 ^ length cs + 10 ^ length cs"
    by (meson add_le_less_mono mult_le_mono1)
  then show ?case by (simp add: digitsVal_Cons)
qed

lemma digitsVal_pos:
  assumes "list_all isDigit ds" "ds \<noteq> []" "hd ds \<noteq> CHR ''0''"
  shows "0 < digitsVal ds"
proof -
  obtain c cs where ds: "ds = c # cs" using assms(2) by (cases ds) auto
  have "0 < digitVal c" using assms ds by (simp add: digitVal_pos)
  then show ?thesis by (simp add: ds digitsVal_Cons)
qed

lemma digitsVal_snoc: "digitsVal (ds @ [c]) = 10 * digitsVal ds + digitVal c"
  by (simp add: digitsVal_def)

lemma natToString_digitsVal:
  "ds \<noteq> [] \<Longrightarrow> list_all isDigit ds \<Longrightarrow> (1 < length ds \<longrightarrow> hd ds \<noteq> CHR ''0'') \<Longrightarrow>
   natToString (digitsVal ds) = ds"
proof (induction ds rule: rev_induct)
  case Nil
  then show ?case by simp
next
  case (snoc c ds)
  have c: "isDigit c" using snoc.prems by simp
  show ?case
  proof (cases "ds = []")
    case True
    have "digitsVal [c] = digitVal c" by (simp add: digitsVal_def)
    then show ?thesis
      using True digitVal_less[OF c] digitChar_digitVal[OF c]
      by (subst natToString.simps) simp
  next
    case False
    have d: "list_all isDigit ds" using snoc.prems by simp
    have h: "hd ds \<noteq> CHR ''0''" using snoc.prems False by (cases ds) auto
    have ih: "natToString (digitsVal ds) = ds"
      using snoc.IH False d h by simp
    have p: "0 < digitsVal ds" using d False h by (rule digitsVal_pos)
    let ?n = "10 * digitsVal ds + digitVal c"
    have big: "\<not> ?n < 10" using p by simp
    have dv: "?n div 10 = digitsVal ds" using digitVal_less[OF c] by simp
    have md: "?n mod 10 = digitVal c" using digitVal_less[OF c] by simp
    have "natToString ?n = natToString (?n div 10) @ [digitChar (?n mod 10)]"
      using big by (subst natToString.simps) simp
    then show ?thesis
      by (simp only: digitsVal_snoc dv md ih digitChar_digitVal[OF c])
  qed
qed

lemma canonicalNat_value:
  assumes "canonicalNat ds"
  shows "natToString (decimalValue ds) = ds" "decimalValue ds < 2 ^ 53"
    "decimalValue ds = digitsVal ds"
proof -
  from assms have f: "ds \<noteq> []" "list_all isDigit ds" "1 < length ds \<longrightarrow> hd ds \<noteq> CHR ''0''"
    "length ds \<le> 15" by (simp_all add: canonicalNat_def)
  show e: "decimalValue ds = digitsVal ds" using f(2) by (rule decimalValue_digitsVal)
  show "natToString (decimalValue ds) = ds"
    unfolding e using f(1,2,3) by (rule natToString_digitsVal)
  have "digitsVal ds < 10 ^ length ds" using f(2) by (rule digitsVal_less)
  also have "(10::nat) ^ length ds \<le> 10 ^ 15" using f(4) by (intro power_increasing) simp_all
  also have "(10::nat) ^ 15 < 2 ^ 53" by simp
  finally show "decimalValue ds < 2 ^ 53" unfolding e .
qed

subsection \<open>Reading and printing a canonical integer\<close>

lemma takeWhile_all_digits: "list_all isDigit ds \<Longrightarrow> takeWhile isDigit ds = ds"
  by (simp add: list_all_iff)

lemma dropWhile_all_digits: "list_all isDigit ds \<Longrightarrow> dropWhile isDigit ds = []"
  by (simp add: list_all_iff)

lemma digit_not_Infinity: "isDigit c \<Longrightarrow> \<not> isPrefixOf ''Infinity'' (c # cs)"
  by (auto simp: isDigit_def)

lemma digit_not_sign: "isDigit c \<Longrightarrow> c \<noteq> CHR ''-'' \<and> c \<noteq> CHR ''+''"
  by (auto simp: isDigit_def)

lemma parseFloat_digits:
  assumes "ds \<noteq> []" "list_all isDigit ds"
  shows "parseFloat rt ds = toDouble rt (of_nat (digitsVal ds))"
proof -
  obtain c cs where ds: "ds = c # cs" using assms(1) by (cases ds) auto
  have c: "isDigit c" using assms(2) ds by simp
  have w: "dropWhile isWhite ds = ds" using c ds by (simp add: isDigit_not_white)
  have i: "\<not> isPrefixOf ''Infinity'' ds" using c ds by (simp only: digit_not_Infinity not_False_eq_True)
  have h: "hd ds \<noteq> CHR ''-''" "hd ds \<noteq> CHR ''+''" using digit_not_sign[OF c] ds by simp_all
  show ?thesis
    using assms(1) h i
    by (simp add: parseFloat_def w Let_def takeWhile_all_digits[OF assms(2)]
        dropWhile_all_digits[OF assms(2)] exponentOf_def)
qed

lemma parseFloat_minus_digits:
  assumes "ds \<noteq> []" "list_all isDigit ds"
  shows "parseFloat rt (CHR ''-'' # ds) = negate (toDouble rt (of_nat (digitsVal ds)))"
proof -
  obtain c cs where ds: "ds = c # cs" using assms(1) by (cases ds) auto
  have c: "isDigit c" using assms(2) ds by simp
  have w: "\<not> isWhite (CHR ''-'')" by (simp add: isWhite_def)
  have i: "\<not> isPrefixOf ''Infinity'' ds" using c ds by (simp only: digit_not_Infinity not_False_eq_True)
  show ?thesis
    using assms(1) i
    by (simp add: parseFloat_def w Let_def takeWhile_all_digits[OF assms(2)]
        dropWhile_all_digits[OF assms(2)] exponentOf_def)
qed

lemma mathRound_int: "mathRound (Finite (of_int n)) = Finite (of_int n)"
proof -
  have "\<lfloor>(of_int n :: rat) + 1 / 2\<rfloor> = n" by linarith
  then show ?thesis by (simp add: mathRound_def)
qed

lemma splitOn_ne: "splitOn d s \<noteq> []"
  by (induction s) (auto split: list.splits)

lemma splitOn_plain: "d \<notin> set a \<Longrightarrow> splitOn d a = [a]"
  by (induction a) auto

lemma splitOn_field: "d \<notin> set a \<Longrightarrow> splitOn d (a @ d # r) = a # splitOn d r"
  by (induction a) (auto split: list.splits simp: splitOn_ne)

lemma splitLines_ne: "splitLines s \<noteq> []"
  by (induction s rule: splitLines.induct) (auto split: list.splits)

lemma splitLines_plain: "plainLine a \<Longrightarrow> splitLines a = [a]"
  by (induction a) (auto simp: plainLine_def)

lemma splitLines_line: "plainLine a \<Longrightarrow> splitLines (a @ CHR 0x0A # r) = a # splitLines r"
  by (induction a) (auto simp: plainLine_def splitLines_ne split: list.splits)

lemma fieldChar_facts:
  assumes "fieldChar c"
  shows "\<not> isWhite c" "c \<noteq> CHR '',''" "c \<noteq> CHR 0x09" "c \<noteq> CHR 0x0A" "c \<noteq> CHR 0x0D"
  using assms by (auto simp: fieldChar_def isDigit_def isWhite_def)

lemma trim_field: "s \<noteq> [] \<Longrightarrow> list_all fieldChar s \<Longrightarrow> trim s = s"
proof -
  assume a: "s \<noteq> []" "list_all fieldChar s"
  then have "fieldChar (hd s)" "fieldChar (last s)" by (auto simp: list_all_iff)
  then show ?thesis using a(1) by (intro trim_id) (auto dest: fieldChar_facts(1))
qed

lemma isYMD_chars: "isYMD d \<Longrightarrow> c \<in> set d \<Longrightarrow> isDigit c \<or> c = CHR ''-''"
proof -
  assume y: "isYMD d" and c: "c \<in> set d"
  from y have l: "length d = 10" by (simp add: isYMD_def)
  from c obtain i where i: "i < 10" "d ! i = c" using l by (auto simp: in_set_conv_nth)
  have a: "\<forall>k<4. isDigit (d ! k)" using y l by (auto simp: isYMD_def list_all_length)
  have b: "\<forall>k<2. isDigit (d ! (5 + k))" using y l by (auto simp: isYMD_def list_all_length)
  have e: "\<forall>k<2. isDigit (d ! (8 + k))" using y l by (auto simp: isYMD_def list_all_length)
  have s: "d ! 4 = CHR ''-''" "d ! 7 = CHR ''-''" using y by (auto simp: isYMD_def)
  from i(1) consider "i < 4" | "i = 4" | "i = 5" | "i = 6" | "i = 7" | "i = 8" | "i = 9" by linarith
  then show ?thesis
  proof cases
    case 1 then show ?thesis using a i by auto
  next
    case 2 then show ?thesis using s i by auto
  next
    case 3 then show ?thesis using b[rule_format, of 0] i by auto
  next
    case 4 then show ?thesis using b[rule_format, of 1] i by auto
  next
    case 5 then show ?thesis using s i by auto
  next
    case 6 then show ?thesis using e[rule_format, of 0] i by auto
  next
    case 7 then show ?thesis using e[rule_format, of 1] i by auto
  qed
qed

lemma isYMD_field: "isYMD d \<Longrightarrow> list_all fieldChar d"
  using isYMD_chars by (auto simp: list_all_iff fieldChar_def)

lemma isYMD_ne: "isYMD d \<Longrightarrow> d \<noteq> []"
  by (auto simp: isYMD_def)

lemma tidy_joinWith: "ls \<noteq> [] \<Longrightarrow> list_all tidy ls \<Longrightarrow> tidy (joinWith sep ls)"
proof (induction ls)
  case Nil
  then show ?case by simp
next
  case (Cons x xs)
  show ?case
  proof (cases xs)
    case Nil
    with Cons.prems show ?thesis by simp
  next
    case (Cons y ys)
    with Cons.IH Cons.prems have t: "tidy (joinWith sep xs)" by simp
    have x: "tidy x" using Cons.prems by simp
    have "joinWith sep (x # xs) = x @ sep @ joinWith sep xs" using Cons by simp
    with t x show ?thesis by (auto simp: tidy_def)
  qed
qed

lemma ten_chars:
  assumes "length s = 10"
  obtains c0 c1 c2 c3 c4 c5 c6 c7 c8 c9 where "s = [c0, c1, c2, c3, c4, c5, c6, c7, c8, c9 :: char]"
proof -
  from assms have "length s = Suc (Suc (Suc (Suc (Suc (Suc (Suc (Suc (Suc (Suc 0)))))))))"
    by simp
  then show ?thesis
    using that by (auto simp: length_Suc_conv)
qed

lemma isYMD_split:
  assumes "isYMD s"
  shows "s = take 4 s @ ''-'' @ take 2 (drop 5 s) @ ''-'' @ drop 8 s"
proof -
  have l: "length s = 10" using assms by (simp add: isYMD_def)
  from l obtain c0 c1 c2 c3 c4 c5 c6 c7 c8 c9 where s: "s = [c0, c1, c2, c3, c4, c5, c6, c7, c8, c9]"
    by (rule ten_chars)
  from assms show ?thesis unfolding s by (simp add: isYMD_def)
qed

lemma parseDate_isYMD:
  assumes "isYMD d" "dateTime rt d \<noteq> None"
  shows "parseDate rt d = Some d"
proof -
  let ?y = "take 4 d" and ?m = "take 2 (drop 5 d)" and ?dd = "drop 8 d"
  have l: "length d = 10" using assms(1) by (simp add: isYMD_def)
  have f: "list_all isDigit ?y" "length ?y = 4" "list_all isDigit ?m" "length ?m = 2"
    "list_all isDigit ?dd" "length ?dd = 2"
    using assms(1) l by (auto simp: isYMD_def)
  have d: "d = ?y @ ''-'' @ ?m @ ''-'' @ ?dd" using isYMD_split[OF assms(1)] .
  from parseDate_canonical[OF f, of rt] assms(2) d show ?thesis by simp
qed

lemma splitLines_crlf: "plainLine a \<Longrightarrow> splitLines (a @ CHR 0x0D # CHR 0x0A # r) = a # splitLines r"
  by (induction a) (auto simp: plainLine_def splitLines_ne split: list.splits)

lemma splitLines_joinWith:
  assumes "sep = lf \<or> sep = crlf"
  shows "ls \<noteq> [] \<Longrightarrow> list_all plainLine ls \<Longrightarrow> splitLines (joinWith sep ls) = ls"
proof (induction ls)
  case Nil
  then show ?case by simp
next
  case (Cons x xs)
  show ?case
  proof (cases xs)
    case Nil
    with Cons.prems show ?thesis by (simp add: splitLines_plain)
  next
    case (Cons y ys)
    with Cons.IH Cons.prems have ih: "splitLines (joinWith sep xs) = xs" by simp
    have x: "plainLine x" using Cons.prems by simp
    from assms show ?thesis
    proof
      assume "sep = lf"
      with Cons ih x show ?thesis by (simp add: lf_def splitLines_line)
    next
      assume "sep = crlf"
      with Cons ih x show ?thesis by (simp add: crlf_def splitLines_crlf)
    qed
  qed
qed

lemma numberToString_int:
  assumes "\<bar>n\<bar> < 2 ^ 53"
  shows "numberToString rt (Finite (of_int n)) = intToString n"
proof -
  have "(2::int) ^ 53 < 10 ^ 21" by simp
  with assms have "\<bar>n\<bar> < 10 ^ 21" by linarith
  then have "\<bar>of_int n :: rat\<bar> < 10 ^ 21"
    by (metis of_int_abs of_int_less_iff of_int_numeral of_int_power)
  then show ?thesis by (simp add: numberToString_def)
qed

lemma canonicalNat_field: "canonicalNat ds \<Longrightarrow> ds \<noteq> [] \<and> list_all fieldChar ds"
  by (auto simp: canonicalNat_def fieldChar_def list_all_iff)

lemma canonicalInt_cases:
  assumes "canonicalInt t"
  obtains ds where "t = CHR ''-'' # ds" "canonicalNat ds" "hd ds \<noteq> CHR ''0''"
  | "canonicalNat t" "hd t \<noteq> CHR ''-''"
proof -
  from assms obtain c cs where t: "t = c # cs" by (cases t) (auto simp: canonicalInt_def)
  show ?thesis
  proof (cases "c = CHR ''-''")
    case True
    with assms t have n: "canonicalNat cs" "cs \<noteq> ''0''" by (simp_all add: canonicalInt_def)
    have "hd cs \<noteq> CHR ''0''"
    proof (cases "1 < length cs")
      case True
      with n(1) show ?thesis by (simp add: canonicalNat_def)
    next
      case False
      with n(1) obtain x where "cs = [x]" by (cases cs) (auto simp: canonicalNat_def)
      with n(2) show ?thesis by simp
    qed
    with that(1) t True n(1) show ?thesis by simp
  next
    case False
    with assms t that(2) show ?thesis by (simp add: canonicalInt_def)
  qed
qed

lemma canonicalInt_field: "canonicalInt t \<Longrightarrow> t \<noteq> [] \<and> list_all fieldChar t"
  by (erule canonicalInt_cases) (auto dest: canonicalNat_field simp: fieldChar_def)

lemma intValue_minus: "intValue (CHR ''-'' # ds) = - int (decimalValue ds)"
  by (simp add: intValue_def)

lemma intValue_plain: "t \<noteq> [] \<Longrightarrow> hd t \<noteq> CHR ''-'' \<Longrightarrow> intValue t = int (decimalValue t)"
  by (cases t) (simp_all add: intValue_def)

lemma parseValue_canonical:
  assumes "exactIntegers rt" "canonicalInt t"
  shows "parseValue rt t = Finite (of_int (intValue t))"
proof -
  have e: "toDouble rt (of_nat m) = Finite (of_nat m)" if "m < 2 ^ 53" for m
    using assms(1) that unfolding exactIntegers_def by blast
  from assms(2) show ?thesis
  proof (cases rule: canonicalInt_cases)
    case (1 ds)
    have d: "ds \<noteq> []" "list_all isDigit ds" using 1(2) by (simp_all add: canonicalNat_def)
    have v: "decimalValue ds = digitsVal ds" "decimalValue ds < 2 ^ 53"
      using canonicalNat_value[OF 1(2)] by simp_all
    have "parseValue rt t = negate (toDouble rt (of_nat (digitsVal ds)))"
      by (simp only: 1(1) parseValue_def list.simps if_False parseFloat_minus_digits[OF d])
    also have "\<dots> = Finite (- of_nat (decimalValue ds))"
      using e[OF v(2)] by (simp only: v(1)[symmetric] negate_def number.case)
    also have "- (of_nat (decimalValue ds) :: rat) = of_int (intValue t)"
      by (simp add: 1(1) intValue_minus)
    finally show ?thesis .
  next
    case 2
    have d: "t \<noteq> []" "list_all isDigit t" using 2(1) by (simp_all add: canonicalNat_def)
    have v: "decimalValue t = digitsVal t" "decimalValue t < 2 ^ 53"
      using canonicalNat_value[OF 2(1)] by simp_all
    have "parseValue rt t = toDouble rt (of_nat (digitsVal t))"
      using d(1) by (simp only: parseValue_def if_False parseFloat_digits[OF d])
    also have "\<dots> = Finite (of_nat (decimalValue t))"
      using e[OF v(2)] by (simp only: v(1)[symmetric])
    also have "(of_nat (decimalValue t) :: rat) = of_int (intValue t)"
      by (simp add: intValue_plain[OF d(1) 2(2)])
    finally show ?thesis .
  qed
qed

lemma intValue_bound: "canonicalInt t \<Longrightarrow> \<bar>intValue t\<bar> < 2 ^ 53"
proof (erule canonicalInt_cases)
  fix ds assume "t = CHR ''-'' # ds" "canonicalNat ds"
  then show ?thesis using canonicalNat_value(2)[of ds] by (simp add: intValue_minus)
next
  assume n: "canonicalNat t" and h: "hd t \<noteq> CHR ''-''"
  have "t \<noteq> []" using n by (simp add: canonicalNat_def)
  then show ?thesis using canonicalNat_value(2)[OF n] by (simp add: intValue_plain[OF _ h])
qed

lemma intToString_intValue: "canonicalInt t \<Longrightarrow> intToString (intValue t) = t"
proof (erule canonicalInt_cases)
  fix ds assume t: "t = CHR ''-'' # ds" and n: "canonicalNat ds" and h: "hd ds \<noteq> CHR ''0''"
  have d: "ds \<noteq> []" "list_all isDigit ds" using n by (simp_all add: canonicalNat_def)
  have "0 < digitsVal ds" using d(2) d(1) h by (rule digitsVal_pos)
  then have p: "0 < decimalValue ds" using canonicalNat_value(3)[OF n] by simp
  show ?thesis
    using p canonicalNat_value(1)[OF n] by (simp add: t intValue_minus intToString_def)
next
  assume n: "canonicalNat t" and h: "hd t \<noteq> CHR ''-''"
  have "t \<noteq> []" using n by (simp add: canonicalNat_def)
  then show ?thesis
    using canonicalNat_value(1)[OF n] by (simp add: intValue_plain[OF _ h] intToString_def)
qed

lemma numberToString_canonical:
  "canonicalInt t \<Longrightarrow> numberToString rt (Finite (of_int (intValue t))) = t"
  by (simp add: numberToString_int[OF intValue_bound] intToString_intValue)

subsection \<open>The lines of a well-formed text\<close>

lemma field_no_delim: "isDelim delim \<Longrightarrow> list_all fieldChar s \<Longrightarrow> delim \<notin> set s"
  by (auto simp: isDelim_def list_all_iff dest: fieldChar_facts(2,3))

lemma wellFormed_fields:
  assumes "wellFormedRow rt (d, f, b, l)"
  shows "isYMD d" "dateTime rt d \<noteq> None" "canonicalInt f" "canonicalInt b" "canonicalInt l"
    "d \<noteq> []" "list_all fieldChar d" "f \<noteq> []" "list_all fieldChar f"
    "b \<noteq> []" "list_all fieldChar b" "l \<noteq> []" "list_all fieldChar l"
  using assms canonicalInt_field isYMD_field isYMD_ne by (auto simp: wellFormedRow_def)

lemma lineOf_chars:
  assumes "wellFormedRow rt r" "c \<in> set (lineOf delim r)"
  shows "fieldChar c \<or> c = delim"
proof -
  obtain d f b l where r: "r = (d, f, b, l)" by (cases r) auto
  from wellFormed_fields[OF assms(1)[unfolded r]] assms(2) show ?thesis
    by (auto simp: r lineOf_def list_all_iff)
qed

lemma lineOf_tidy:
  assumes "wellFormedRow rt r"
  shows "tidy (lineOf delim r)"
proof -
  obtain d f b l where r: "r = (d, f, b, l)" by (cases r) auto
  note w = wellFormed_fields[OF assms[unfolded r]]
  have 1: "fieldChar (hd d)" using w(6,7) by (cases d) auto
  have 2: "fieldChar (last l)" using w(12,13) by (auto simp: list_all_iff)
  show ?thesis
    using 1 2 w(6,12) by (auto simp: r tidy_def lineOf_def dest: fieldChar_facts(1))
qed

lemma lineOf_plain:
  assumes "isDelim delim" "wellFormedRow rt r"
  shows "plainLine (lineOf delim r)"
proof -
  have "c \<noteq> CHR 0x0A \<and> c \<noteq> CHR 0x0D" if "c \<in> set (lineOf delim r)" for c
  proof -
    from lineOf_chars[OF assms(2) that] show ?thesis
    proof
      assume "fieldChar c"
      then show ?thesis using fieldChar_facts(4,5) by blast
    next
      assume "c = delim"
      with assms(1) show ?thesis by (auto simp: isDelim_def)
    qed
  qed
  then show ?thesis unfolding plainLine_def by blast
qed

lemma lineOf_has_delim: "delim \<in> set (lineOf delim r)"
  by (cases r) (simp add: lineOf_def)

lemma tab_not_field: "\<not> fieldChar (CHR 0x09)"
  by (simp add: fieldChar_def isDigit_def)

lemma lineOf_comma_no_tab:
  assumes "wellFormedRow rt r"
  shows "CHR 0x09 \<notin> set (lineOf (CHR '','') r)"
proof
  assume "CHR 0x09 \<in> set (lineOf (CHR '','') r)"
  from lineOf_chars[OF assms this] show False by (simp add: tab_not_field)
qed

lemma splitOn_lineOf:
  assumes "isDelim delim" "wellFormedRow rt (d, f, b, l)"
  shows "splitOn delim (lineOf delim (d, f, b, l)) = [d, f, b, l]"
proof -
  note w = wellFormed_fields[OF assms(2)]
  note n = field_no_delim[OF assms(1)]
  show ?thesis
    by (simp add: lineOf_def splitOn_field[OF n[OF w(7)]] splitOn_field[OF n[OF w(9)]]
        splitOn_field[OF n[OF w(11)]] splitOn_plain[OF n[OF w(13)]])
qed

lemma parseRow_lineOf:
  assumes "exactIntegers rt" "isDelim delim" "wellFormedRow rt r"
  shows "parseRow rt delim k (lineOf delim r) = Some (obsOfRow rt k r)"
proof -
  obtain d f b l where r: "r = (d, f, b, l)" by (cases r) auto
  note w = wellFormed_fields[OF assms(3)[unfolded r]]
  have t: "trim (lineOf delim (d, f, b, l)) = lineOf delim (d, f, b, l)"
    and ne: "lineOf delim (d, f, b, l) \<noteq> []"
    using lineOf_tidy[OF assms(3)[unfolded r], of delim] by (auto simp: tidy_def intro: trim_id)
  have parts: "map trim (splitOn delim (lineOf delim (d, f, b, l))) = [d, f, b, l]"
    by (simp add: splitOn_lineOf[OF assms(2) assms(3)[unfolded r]] trim_field[OF w(6,7)]
        trim_field[OF w(8,9)] trim_field[OF w(10,11)] trim_field[OF w(12,13)])
  show ?thesis
    unfolding r parseRow_def t parts Let_def
    using ne
    by (simp add: parseDate_isYMD[OF w(1,2)] parseValue_canonical[OF assms(1)] w(3,4,5)
        mathRound_int isNaN_def obsOfRow_def)
qed

lemma parseRow_header: "isDelim delim \<Longrightarrow> parseRow rt delim k (headerOf delim) = None"
  unfolding isDelim_def
  by (elim disjE)
     (simp_all add: parseRow_def headerOf_def trim_def isWhite_def Let_def parseDate_def
        datePartOf_def isoMatch_def slashMatch_def compactMatch_def isDigit_def)

lemma headerOf_props:
  assumes "isDelim delim"
  shows "tidy (headerOf delim)" "plainLine (headerOf delim)" "delim \<in> set (headerOf delim)"
    "CHR 0x09 \<notin> set (headerOf (CHR '',''))"
  using assms unfolding isDelim_def
  by (auto simp: tidy_def headerOf_def isWhite_def plainLine_def)

lemma detectDelimiter_lines:
  assumes "isDelim delim" "ls \<noteq> []" "list_all tidy ls" "list_all (\<lambda>l. delim \<in> set l) ls"
    "delim = CHR '','' \<longrightarrow> list_all (\<lambda>l. CHR 0x09 \<notin> set l) ls"
  shows "detectDelimiter ls = delim"
proof -
  obtain x xs where ls: "ls = x # xs" using assms(2) by (cases ls) auto
  have "tidy x" using assms(3) ls by simp
  then have "trim x = x" "x \<noteq> []" by (auto simp: tidy_def intro: trim_id)
  then have f: "List.find (\<lambda>l. trim l \<noteq> []) ls = Some x" by (simp add: ls)
  from assms(1) show ?thesis unfolding isDelim_def
  proof
    assume c: "delim = CHR '',''"
    with assms(5) ls have "CHR 0x09 \<notin> set x" by simp
    with c show ?thesis by (simp add: detectDelimiter_def f)
  next
    assume c: "delim = CHR 0x09"
    with assms(4) ls have "CHR 0x09 \<in> set x" by simp
    with c show ?thesis by (simp add: detectDelimiter_def f)
  qed
qed

lemma importLoop_rows:
  assumes "exactIntegers rt" "isDelim delim" "list_all (wellFormedRow rt) rows"
  shows "importLoop rt delim (map (lineOf delim) rows) acc = acc @ numberRows rt (length acc) rows"
  using assms(3)
proof (induction rows arbitrary: acc)
  case Nil
  then show ?case by simp
next
  case (Cons r rows)
  then have w: "wellFormedRow rt r" and ws: "list_all (wellFormedRow rt) rows" by simp_all
  show ?case
    using Cons.IH[OF ws, of "acc @ [obsOfRow rt (length acc) r]"]
    by (simp add: parseRow_lineOf[OF assms(1,2) w])
qed

lemma insertJS_map:
  assumes "\<And>a b. cmp' (f a) (f b) = cmp a b"
  shows "insertJS cmp' (f x) (map f xs) = map f (insertJS cmp x xs)"
  by (induction xs) (simp_all add: assms)

lemma sortJS_map:
  assumes "\<And>a b. cmp' (f a) (f b) = cmp a b"
  shows "sortJS cmp' (map f xs) = map f (sortJS cmp xs)"
proof (induction xs)
  case Nil
  then show ?case by (simp add: sortJS_def)
next
  case (Cons x xs)
  have "sortJS cmp' (map f (x # xs)) = insertJS cmp' (f x) (sortJS cmp' (map f xs))"
    by (simp add: sortJS_def)
  also have "\<dots> = insertJS cmp' (f x) (map f (sortJS cmp xs))" by (simp only: Cons.IH)
  also have "\<dots> = map f (insertJS cmp x (sortJS cmp xs))" by (rule insertJS_map) (rule assms)
  also have "\<dots> = map f (sortJS cmp (x # xs))" by (simp add: sortJS_def)
  finally show ?case .
qed

subsection \<open>The round trip\<close>

lemma numberRows_enumerate:
  "numberRows rt n rows = map (\<lambda>p. obsOfRow rt (fst p) (snd p)) (List.enumerate n rows)"
  by (induction rows arbitrary: n) simp_all

lemma date_obsOfRow: "date (obsOfRow rt k r) = fst r"
  by (cases r) (simp add: obsOfRow_def)

lemma valuesOf_obsOfRow: "valuesOf (obsOfRow rt k r) = rowValues r"
  by (cases r) (simp add: obsOfRow_def valuesOf_def rowValues_def)

lemma exportRow_obsOfRow:
  assumes "wellFormedRow rt r"
  shows "exportRow rt (obsOfRow rt k r) = lineOf (CHR '','') r"
proof -
  obtain d f b l where r: "r = (d, f, b, l)" by (cases r) auto
  note w = wellFormed_fields[OF assms[unfolded r]]
  show ?thesis
    by (simp add: r exportRow_def obsOfRow_def lineOf_def numberToString_canonical w(3,4,5))
qed

lemma headerOf_comma: "headerOf (CHR '','') = ''Date,Figs,Bats,Leaves''"
  by (simp add: headerOf_def)

lemma exportToCSV_lines:
  "exportToCSV rt xs = joinWith lf (headerOf (CHR '','') # map (exportRow rt) xs)"
  by (simp add: exportToCSV_def lf_def headerOf_comma Let_def)

lemma sorted_import:
  assumes "list_all (wellFormedRow rt) rows"
  defines "rows' \<equiv> sortJS (rowNewestFirst rt) rows"
  shows "map valuesOf (sortJS (newestFirst rt) (numberRows rt 0 rows)) = map rowValues rows'"
    and "map (exportRow rt) (sortJS (newestFirst rt) (numberRows rt 0 rows)) = map (lineOf (CHR '','')) rows'"
proof -
  let ?h = "\<lambda>p. obsOfRow rt (fst p) (snd p)"
  let ?cp = "\<lambda>p q. rowNewestFirst rt (snd p) (snd q)"
  let ?pairs = "List.enumerate 0 rows"
  let ?sp = "sortJS ?cp ?pairs"
  have 1: "sortJS (newestFirst rt) (numberRows rt 0 rows) = map ?h ?sp"
    unfolding numberRows_enumerate
    by (rule sortJS_map) (simp add: newestFirst_def rowNewestFirst_def date_obsOfRow)
  have "sortJS (rowNewestFirst rt) (map snd ?pairs) = map snd ?sp"
    by (rule sortJS_map) simp
  then have 2: "rows' = map snd ?sp" by (simp add: rows'_def)
  have w: "wellFormedRow rt (snd p)" if "p \<in> set ?sp" for p
  proof -
    from that have "p \<in> set ?pairs" by (simp add: set_sortJS)
    then have "snd p \<in> set (map snd ?pairs)" unfolding set_map by (rule imageI)
    then have "snd p \<in> set rows" by simp
    with assms(1) show ?thesis by (simp add: list_all_iff)
  qed
  show "map valuesOf (sortJS (newestFirst rt) (numberRows rt 0 rows)) = map rowValues rows'"
    unfolding 1 2 by (simp add: valuesOf_obsOfRow)
  show "map (exportRow rt) (sortJS (newestFirst rt) (numberRows rt 0 rows)) = map (lineOf (CHR '','')) rows'"
    unfolding 1 2 using w by (simp add: exportRow_obsOfRow)
qed

lemma lines_props:
  fixes hdr :: bool
  assumes "isDelim delim" "list_all (wellFormedRow rt) rows"
  defines "ls \<equiv> (if hdr then [headerOf delim] else []) @ map (lineOf delim) rows"
  shows "list_all tidy ls" "list_all plainLine ls" "list_all (\<lambda>l. delim \<in> set l) ls"
    "delim = CHR '','' \<longrightarrow> list_all (\<lambda>l. CHR 0x09 \<notin> set l) ls"
proof -
  have r: "tidy (lineOf delim r)" "plainLine (lineOf delim r)" "delim \<in> set (lineOf delim r)"
    "CHR 0x09 \<notin> set (lineOf (CHR '','') r)" if "r \<in> set rows" for r
    using that assms(2) lineOf_tidy[of rt r delim] lineOf_plain[OF assms(1), of rt r]
      lineOf_has_delim[of delim r] lineOf_comma_no_tab[of rt r]
    by (simp_all add: list_all_iff)
  note h = headerOf_props[OF assms(1)]
  show "list_all tidy ls" using r(1) h(1) by (auto simp: ls_def list_all_iff)
  show "list_all plainLine ls" using r(2) h(2) by (auto simp: ls_def list_all_iff)
  show "list_all (\<lambda>l. delim \<in> set l) ls" using r(3) h(3) by (auto simp: ls_def list_all_iff)
  show "delim = CHR '','' \<longrightarrow> list_all (\<lambda>l. CHR 0x09 \<notin> set l) ls"
    using r(4) h(4) by (auto simp: ls_def list_all_iff)
qed

lemma import_lines:
  assumes "exactIntegers rt" "isDelim delim" "sep = lf \<or> sep = crlf"
    "list_all (wellFormedRow rt) rows"
  shows "fst (importFromCSV rt (textOf sep delim hdr rows) st) =
     sortJS (newestFirst rt) (numberRows rt 0 rows)"
proof (cases "\<not> hdr \<and> rows = []")
  case True
  then show ?thesis by (simp add: textOf_def importFromCSV_def sortJS_def)
next
  case False
  let ?ls = "(if hdr then [headerOf delim] else []) @ map (lineOf delim) rows"
  let ?obs = "numberRows rt 0 rows"
  have ne: "?ls \<noteq> []" using False by auto
  note p = lines_props[OF assms(2,4), of hdr]
  have t: "trim (textOf sep delim hdr rows) = textOf sep delim hdr rows"
    and n: "textOf sep delim hdr rows \<noteq> []"
    using tidy_joinWith[OF ne p(1), of sep] by (auto simp: textOf_def tidy_def intro: trim_id)
  have s: "splitLines (textOf sep delim hdr rows) = ?ls"
    unfolding textOf_def by (rule splitLines_joinWith[OF assms(3) ne p(2)])
  have d: "detectDelimiter ?ls = delim"
    by (rule detectDelimiter_lines[OF assms(2) ne p(1) p(3) p(4)])
  have loop: "importLoop rt delim ?ls [] = ?obs"
    using importLoop_rows[OF assms(1,2,4), of "[]"] by (simp add: parseRow_header[OF assms(2)])
  show ?thesis
  proof (cases "?obs = []")
    case True
    then show ?thesis using n by (simp add: importFromCSV_def t s d loop Let_def sortJS_def)
  next
    case False
    then show ?thesis using n by (simp add: importFromCSV_def t s d loop Let_def)
  qed
qed

text \<open>
  Claim C7. Let the input be the lines of well-formed rows, each a date \<open>YYYY-MM-DD\<close>
  that the engine reads and three integers in canonical decimal writing, with a comma or
  a tab between the fields, LF or CR LF between the lines, with or without the header
  line. Then the records imported carry, in the order of the import (newest first, a
  permutation of the rows of the input), the date of each row and the integers its figs,
  bats and leaves texts denote; and the export of these records is the header line
  followed by the same rows in that order, written with commas and LF.
\<close>

theorem export_import_roundtrip:
  assumes "exactIntegers rt" and "list_all (wellFormedRow rt) rows"
    and "delim = CHR '','' \<or> delim = CHR 0x09" and "sep = lf \<or> sep = crlf"
  shows "mset (sortJS (rowNewestFirst rt) rows) = mset rows \<and>
     map valuesOf (fst (importFromCSV rt (textOf sep delim hdr rows) st)) =
       map rowValues (sortJS (rowNewestFirst rt) rows) \<and>
     exportToCSV rt (fst (importFromCSV rt (textOf sep delim hdr rows) st)) =
       textOf lf (CHR '','') True (sortJS (rowNewestFirst rt) rows)"
proof -
  have dl: "isDelim delim" using assms(3) by (simp add: isDelim_def)
  note i = import_lines[OF assms(1) dl assms(4) assms(2), of hdr st]
  note s = sorted_import[OF assms(2)]
  show ?thesis
    unfolding i s exportToCSV_lines by (simp add: s mset_sortJS textOf_def)
qed

lemma refRuntime_exact: "exactIntegers refRuntime"
  by (simp add: exactIntegers_def refRuntime_def)

lemma rows0_wellFormed: "list_all (wellFormedRow refRuntime) rows0"
  by code_simp

lemma rows0_text:
  "textOf crlf (CHR 0x09) True rows0 =
     ''Date'' @ tab @ ''Figs'' @ tab @ ''Bats'' @ tab @ ''Leaves'' @ crlf @
     ''2023-10-01'' @ tab @ ''20'' @ tab @ ''10'' @ tab @ ''50'' @ crlf @
     ''2023-10-02'' @ tab @ ''25'' @ tab @ ''-15'' @ tab @ ''0''"
  by code_simp

lemma rows0_sorted:
  "sortJS (rowNewestFirst refRuntime) rows0 =
     [(''2023-10-02'', ''25'', ''-15'', ''0''), (''2023-10-01'', ''20'', ''10'', ''50'')]"
  by code_simp

lemma rows0_export:
  "textOf lf (CHR '','') True [(''2023-10-02'', ''25'', ''-15'', ''0''), (''2023-10-01'', ''20'', ''10'', ''50'')] =
     ''Date,Figs,Bats,Leaves'' @ lf @ ''2023-10-02,25,-15,0'' @ lf @ ''2023-10-01,20,10,50''"
  by code_simp

lemma rows0_values:
  "map rowValues [(''2023-10-02'', ''25'', ''-15'', ''0''), (''2023-10-01'', ''20'', ''10'', ''50'')] =
     [(''2023-10-02'', Finite 25, Finite (- 15), Finite 0), (''2023-10-01'', Finite 20, Finite 10, Finite 50)]"
  by code_simp

theorem export_import_roundtrip_witness:
  "map valuesOf (fst (importFromCSV refRuntime
       (''Date'' @ tab @ ''Figs'' @ tab @ ''Bats'' @ tab @ ''Leaves'' @ crlf @
        ''2023-10-01'' @ tab @ ''20'' @ tab @ ''10'' @ tab @ ''50'' @ crlf @
        ''2023-10-02'' @ tab @ ''25'' @ tab @ ''-15'' @ tab @ ''0'') Missing)) =
     [(''2023-10-02'', Finite 25, Finite (- 15), Finite 0), (''2023-10-01'', Finite 20, Finite 10, Finite 50)] \<and>
   exportToCSV refRuntime (fst (importFromCSV refRuntime
       (''Date'' @ tab @ ''Figs'' @ tab @ ''Bats'' @ tab @ ''Leaves'' @ crlf @
        ''2023-10-01'' @ tab @ ''20'' @ tab @ ''10'' @ tab @ ''50'' @ crlf @
        ''2023-10-02'' @ tab @ ''25'' @ tab @ ''-15'' @ tab @ ''0'') Missing)) =
     ''Date,Figs,Bats,Leaves'' @ lf @ ''2023-10-02,25,-15,0'' @ lf @ ''2023-10-01,20,10,50''"
  using export_import_roundtrip[OF refRuntime_exact rows0_wellFormed, of "CHR 0x09" crlf True Missing]
  unfolding rows0_text rows0_sorted rows0_export rows0_values
  by simp

end
